theory Spec2Isabelle
  imports Main "HOL-Library.Word"
begin

section \<open>Data model of package logger\<close>

text \<open>
  A Go \<^verbatim>\<open>string\<close> is a sequence of bytes, and so is a HOL \<^typ>\<open>string\<close>: the two are
  identified. A rune is a natural number.

  \<^verbatim>\<open>time.Time\<close> is represented by the civil fields that its \<^verbatim>\<open>Date\<close> and \<^verbatim>\<open>Clock\<close>
  methods report in the value's own location, by its nanoseconds and by the offset of
  that location east of UTC, in seconds.
\<close>

record gtime =
  t_year :: int
  t_month :: nat
  t_day :: nat
  t_hour :: nat
  t_minute :: nat
  t_second :: nat
  t_nsec :: nat
  t_offset :: int

text \<open>
  The dynamic values an \<^verbatim>\<open>interface{}\<close> of the trace callback can hold, by the cases that
  \<^verbatim>\<open>getFormattedValues\<close> tells apart:
  \<^item> \<open>VNil\<close> is the nil interface;
  \<^item> \<open>VPtr None\<close> is a nil pointer and \<open>VPtr (Some v)\<close> a pointer to \<open>v\<close>;
  \<^item> \<open>VTime\<close> is a \<^verbatim>\<open>time.Time\<close> and \<open>VBytes\<close> a \<^verbatim>\<open>[]byte\<close>;
  \<^item> \<open>VValuer v failed\<close> is a value of a type that implements \<^verbatim>\<open>driver.Valuer\<close>, given
    by what its \<^verbatim>\<open>Value\<close> method returns: the value \<open>v\<close> and whether the error is non-nil;
  \<^item> \<open>VInt\<close> stands for \<^verbatim>\<open>int, int8, int16, int32, int64\<close>, \<open>VUint\<close> for
    \<^verbatim>\<open>uint, uint8, uint16, uint32, uint64\<close>, \<open>VFloat32\<close> and \<open>VFloat64\<close> carry the bits of
    the float, \<open>VBool\<close> is \<^verbatim>\<open>bool\<close>;
  \<^item> \<open>VStr\<close> is a \<^verbatim>\<open>string\<close>, \<open>VSlice\<close> a \<^verbatim>\<open>[]interface{}\<close>;
  \<^item> \<open>VOther n\<close> is a value of any other type (a struct, a named type, a map), named by
    a number.
\<close>

datatype gvalue =
    VNil
  | VPtr "gvalue option"
  | VTime gtime
  | VBytes string
  | VValuer gvalue bool
  | VInt int
  | VUint nat
  | VFloat32 "32 word"
  | VFloat64 "64 word"
  | VBool bool
  | VStr string
  | VSlice "gvalue list"
  | VOther nat

text \<open>
  What the code takes from the tables of package unicode and from package fmt is a
  parameter of the model: which runes from \<open>0x80\<close> on, U+FFFD apart, are printable,
  which of them are letters, which runes from \<open>0x100\<close> on are digits, and the text that
  the verb \<^verbatim>\<open>%v\<close> prints for a value that is neither a string, nor an integer, nor a
  boolean.
\<close>

record golib =
  print_table :: "nat \<Rightarrow> bool"
  letter_table :: "nat \<Rightarrow> bool"
  digit_table :: "nat \<Rightarrow> bool"
  fmt_v :: "gvalue \<Rightarrow> string"

text \<open>
  \<^verbatim>\<open>unicode.IsPrint\<close>, \<^verbatim>\<open>unicode.IsLetter\<close> and \<^verbatim>\<open>unicode.IsDigit\<close>. Of the ASCII runes, the
  printable ones are the space and the graphic characters up to the tilde, the letters
  are the Latin ones, and no rune of Latin-1 but \<^verbatim>\<open>0\<close> to \<^verbatim>\<open>9\<close> is a digit. The
  replacement character U+FFFD, which stands for a byte that is not UTF-8, is a symbol
  and so it is printable.
\<close>

definition unicode_IsPrint :: "golib \<Rightarrow> nat \<Rightarrow> bool" where
  "unicode_IsPrint L r =
     (if r < 0x80 then 0x20 \<le> r \<and> r \<le> 0x7E
      else if r = 0xFFFD then True
      else print_table L r)"

definition unicode_IsLetter :: "golib \<Rightarrow> nat \<Rightarrow> bool" where
  "unicode_IsLetter L r =
     (if r < 0x80 then (0x41 \<le> r \<and> r \<le> 0x5A) \<or> (0x61 \<le> r \<and> r \<le> 0x7A)
      else letter_table L r)"

definition unicode_IsDigit :: "golib \<Rightarrow> nat \<Rightarrow> bool" where
  "unicode_IsDigit L r = (if r \<le> 0xFF then 0x30 \<le> r \<and> r \<le> 0x39 else digit_table L r)"

text \<open>A panic of the Go runtime.\<close>

datatype panic =
    IndexOutOfRange nat nat
  | InterfaceConversion
  | NilPointerDereference

section \<open>Runes of a string\<close>

definition RuneError :: nat where
  "RuneError = 0xFFFD"

text \<open>
  For a leading byte of a multi-byte sequence: the size of the sequence and the range
  accepted for its second byte (the table \<^verbatim>\<open>first\<close> and the \<^verbatim>\<open>acceptRanges\<close> of
  \<^verbatim>\<open>unicode/utf8\<close>).
\<close>

definition utf8_first :: "nat \<Rightarrow> (nat \<times> nat \<times> nat) option" where
  "utf8_first b =
     (if 0xC2 \<le> b \<and> b \<le> 0xDF then Some (2, 0x80, 0xBF)
      else if b = 0xE0 then Some (3, 0xA0, 0xBF)
      else if b = 0xED then Some (3, 0x80, 0x9F)
      else if 0xE1 \<le> b \<and> b \<le> 0xEF then Some (3, 0x80, 0xBF)
      else if b = 0xF0 then Some (4, 0x90, 0xBF)
      else if b = 0xF4 then Some (4, 0x80, 0x8F)
      else if 0xF1 \<le> b \<and> b \<le> 0xF3 then Some (4, 0x80, 0xBF)
      else None)"

text \<open>
  \<^verbatim>\<open>utf8.DecodeRuneInString\<close>: the first rune of the string and its width in bytes. An
  invalid or short encoding is \<open>RuneError\<close> of width 1. A \<^verbatim>\<open>range\<close> loop over a string
  and the regexp engine both step through a string this way.
\<close>

definition DecodeRuneInString :: "string \<Rightarrow> nat \<times> nat" where
  "DecodeRuneInString s =
     (case map of_char s of
        [] \<Rightarrow> (RuneError, 0)
      | s0 # t \<Rightarrow>
          if s0 < 0x80 then (s0, 1)
          else
            (case utf8_first s0 of
               None \<Rightarrow> (RuneError, 1)
             | Some (sz, lo, hi) \<Rightarrow>
                 if length s < sz then (RuneError, 1)
                 else if t ! 0 < lo \<or> hi < t ! 0 then (RuneError, 1)
                 else if sz \<le> 2 then ((s0 mod 32) * 64 + t ! 0 mod 64, 2)
                 else if t ! 1 < 0x80 \<or> 0xBF < t ! 1 then (RuneError, 1)
                 else if sz \<le> 3
                   then ((s0 mod 16) * 4096 + (t ! 0 mod 64) * 64 + t ! 1 mod 64, 3)
                 else if t ! 2 < 0x80 \<or> 0xBF < t ! 2 then (RuneError, 1)
                 else ((s0 mod 8) * 262144 + (t ! 0 mod 64) * 4096
                         + (t ! 1 mod 64) * 64 + t ! 2 mod 64, 4)))"

lemma utf8_first_size:
  "utf8_first b = Some (sz, lo, hi) \<Longrightarrow> 2 \<le> sz \<and> sz \<le> 4"
  by (auto simp: utf8_first_def split: if_splits)

lemma DecodeRuneInString_width:
  assumes "s \<noteq> []"
  shows "1 \<le> snd (DecodeRuneInString s) \<and> snd (DecodeRuneInString s) \<le> length s"
proof (cases s)
  case Nil
  with assms show ?thesis by simp
next
  case (Cons c cs)
  show ?thesis
  proof (cases "utf8_first (of_char c)")
    case None
    then show ?thesis by (simp add: DecodeRuneInString_def Cons)
  next
    case (Some p)
    obtain sz lo hi where p: "p = (sz, lo, hi)" by (cases p)
    from Some p have "2 \<le> sz \<and> sz \<le> 4" using utf8_first_size by blast
    with Some p show ?thesis
      by (auto simp: DecodeRuneInString_def Cons)
  qed
qed

lemma drop_rune_shorter:
  "s \<noteq> [] \<Longrightarrow> (r, w) = DecodeRuneInString s \<Longrightarrow> length (drop w s) < length s"
  using DecodeRuneInString_width [of s] by (cases "DecodeRuneInString s") auto

section \<open>isPrintable\<close>

text \<open>
  The loop \<^verbatim>\<open>for _, r := range s\<close> with its early \<^verbatim>\<open>return false\<close>.
\<close>

function isPrintable :: "golib \<Rightarrow> string \<Rightarrow> bool" where
  "isPrintable L s =
     (if s = [] then True
      else
        (let (r, w) = DecodeRuneInString s
         in if \<not> unicode_IsPrint L r then False else isPrintable L (drop w s)))"
  by pat_completeness auto
termination
  by (relation "measure (\<lambda>(L, s). length s)") (auto dest: drop_rune_shorter)

declare isPrintable.simps [simp del]

text \<open>The runes a \<^verbatim>\<open>range\<close> loop over the string visits, in order.\<close>

function runes :: "string \<Rightarrow> nat list" where
  "runes s =
     (if s = [] then []
      else (let (r, w) = DecodeRuneInString s in r # runes (drop w s)))"
  by pat_completeness auto
termination
  by (relation "measure length") (auto dest: drop_rune_shorter)

declare runes.simps [simp del]

section \<open>Encoding of runes\<close>

text \<open>
  \<^verbatim>\<open>utf8.EncodeRune\<close>, the inverse of the decoding: the bytes of a rune, those of U+FFFD for
  a surrogate half and for a number beyond U+10FFFF. The properties below say what the
  decoding does in its terms. A string is \<open>decoded\<close> when its first rune is read either as
  \<open>RuneError\<close> of width 1 or from the encoding of a valid rune that the string starts with.
\<close>

definition valid_rune :: "nat \<Rightarrow> bool" where
  "valid_rune r \<longleftrightarrow> r < 0xD800 \<or> (0xE000 \<le> r \<and> r \<le> 0x10FFFF)"

definition EncodeRune :: "nat \<Rightarrow> string" where
  "EncodeRune r =
     (if r < 0x80 then [char_of r]
      else if r < 0x800 then [char_of (0xC0 + r div 64), char_of (0x80 + r mod 64)]
      else if \<not> valid_rune r then [char_of (0xEF::nat), char_of (0xBF::nat), char_of (0xBD::nat)]
      else if r < 0x10000 then
        [char_of (0xE0 + r div 4096), char_of (0x80 + r div 64 mod 64), char_of (0x80 + r mod 64)]
      else
        [char_of (0xF0 + r div 262144), char_of (0x80 + r div 4096 mod 64),
         char_of (0x80 + r div 64 mod 64), char_of (0x80 + r mod 64)])"

definition decoded :: "string \<Rightarrow> bool" where
  "decoded s \<longleftrightarrow>
     DecodeRuneInString s = (RuneError, 1) \<or>
     (\<exists>r. valid_rune r \<and> DecodeRuneInString s = (r, length (EncodeRune r)) \<and>
          take (length (EncodeRune r)) s = EncodeRune r)"

section \<open>createSQL\<close>

text \<open>
  \<^verbatim>\<open>numericPlaceHolderRegexp.MatchString(sql)\<close> for the pattern \<^verbatim>\<open>\$\d+\<close>: somewhere in
  the string a dollar sign is followed by an ASCII digit.
\<close>

definition isDigitByte :: "char \<Rightarrow> bool" where
  "isDigitByte c \<longleftrightarrow> (48::nat) \<le> of_char c \<and> (of_char c :: nat) \<le> 57"

fun numericPlaceHolderMatch :: "string \<Rightarrow> bool" where
  "numericPlaceHolderMatch [] = False"
| "numericPlaceHolderMatch [c] = False"
| "numericPlaceHolderMatch (c # d # s) =
     ((c = CHR ''$'' \<and> isDigitByte d) \<or> numericPlaceHolderMatch (d # s))"

text \<open>
  \<^verbatim>\<open>sqlRegexp.Split(sql, -1)\<close> for the pattern \<^verbatim>\<open>\?\<close>: the segments between the question
  marks, \<open>seg\<close> being the segment read so far. A string without question mark, the empty
  one too, is its own single segment.
\<close>

fun splitQ :: "string \<Rightarrow> string \<Rightarrow> string list" where
  "splitQ seg [] = [seg]"
| "splitQ seg (c # s) =
     (if c = CHR ''?'' then seg # splitQ [] s else splitQ (seg @ [c]) s)"

text \<open>\<^verbatim>\<open>fmt.Sprintf("%d", n)\<close> for a number that is not negative.\<close>

fun itoa :: "nat \<Rightarrow> string" where
  "itoa n =
     (if n < 10 then [char_of (48 + n)]
      else itoa (n div 10) @ [char_of (48 + n mod 10)])"

declare itoa.simps [simp del]

text \<open>
  The loop of \<^verbatim>\<open>extract\<close> (package regexp) that reads a name: the number of leading bytes
  whose runes are letters, digits or underscores.
\<close>

function nameLen :: "golib \<Rightarrow> string \<Rightarrow> nat" where
  "nameLen L s =
     (if s = [] then 0
      else
        (let (r, w) = DecodeRuneInString s
         in if \<not> unicode_IsLetter L r \<and> \<not> unicode_IsDigit L r \<and> r \<noteq> 95 then 0
            else w + nameLen L (drop w s)))"
  by pat_completeness auto
termination
  by (relation "measure (\<lambda>(L, s). length s)") (auto dest: drop_rune_shorter)

declare nameLen.simps [simp del]

text \<open>
  The loop of \<^verbatim>\<open>extract\<close> that reads the name as a number: \<open>-1\<close> when a byte is not an
  ASCII digit or the number has reached \<^verbatim>\<open>1e8\<close>.
\<close>

fun parseNum :: "string \<Rightarrow> int \<Rightarrow> int" where
  "parseNum [] num = num"
| "parseNum (c # cs) num =
     (if (of_char c :: nat) < 48 \<or> (57::nat) < of_char c \<or> num \<ge> 100000000 then -1
      else parseNum cs (num * 10 + int (of_char c) - 48))"

text \<open>
  \<^verbatim>\<open>extract\<close>: the name after a dollar sign of a replacement template, written
  \<^verbatim>\<open>name\<close> or \<^verbatim>\<open>{name}\<close>, its number (\<open>-1\<close> when it is not one) and the rest of the
  template; \<open>None\<close> when there is no well-formed name.
\<close>

definition extract_name :: "golib \<Rightarrow> string \<Rightarrow> (string \<times> int \<times> string) option" where
  "extract_name L str0 =
     (if str0 = [] then None
      else
        (let brace = (hd str0 = CHR ''{'');
             str = (if brace then tl str0 else str0);
             i = nameLen L str
         in if i = 0 then None
            else if brace \<and> (i \<ge> length str \<or> str ! i \<noteq> CHR ''}'') then None
            else
              (let name = take i str;
                   j = (if brace then i + 1 else i);
                   num = parseNum name 0;
                   num' = (if hd name = CHR ''0'' \<and> length name > 1 then -1 else num)
               in Some (name, num', drop j str))))"

text \<open>
  What a reference of a template stands for, in a match of the placeholder pattern: the
  pattern has one group and no group has a name, so \<open>0\<close> is the whole match, \<open>1\<close> the
  group, and every other number and every name is empty.
\<close>

definition submatch :: "int \<Rightarrow> string \<Rightarrow> string \<Rightarrow> string" where
  "submatch num m g = (if num = 0 then m else if num = 1 then g else [])"

lemma nameLen_le: "nameLen L s \<le> length s"
proof (induction L s rule: nameLen.induct)
  case (1 L s)
  show ?case
  proof (cases "s = []")
    case True
    then show ?thesis by (simp add: nameLen.simps)
  next
    case False
    obtain r w where d: "DecodeRuneInString s = (r, w)"
      by (cases "DecodeRuneInString s")
    have w: "w \<le> length s"
      using DecodeRuneInString_width [OF False] d by simp
    show ?thesis
    proof (cases "\<not> unicode_IsLetter L r \<and> \<not> unicode_IsDigit L r \<and> r \<noteq> 95")
      case True
      with False d show ?thesis by (simp add: nameLen.simps [of L s])
    next
      case stop: False
      have "nameLen L (drop w s) \<le> length (drop w s)"
        using "1.IH" [OF False d [symmetric]] stop by blast
      with False d stop w show ?thesis
        by (simp add: nameLen.simps [of L s])
    qed
  qed
qed

lemma extract_rest_le:
  "extract_name L t = Some (name, num, rest) \<Longrightarrow> length rest \<le> length t"
  by (auto simp: extract_name_def Let_def split: if_splits)

text \<open>
  \<^verbatim>\<open>Regexp.expand\<close>: the replacement template with its references filled in from the
  match \<open>m\<close> and its group \<open>g\<close>. Two dollar signs are one, and a dollar sign that no name
  follows stays.
\<close>

function expand :: "golib \<Rightarrow> string \<Rightarrow> string \<Rightarrow> string \<Rightarrow> string" where
  "expand L template m g =
     (case dropWhile (\<lambda>c. c \<noteq> CHR ''$'') template of
        [] \<Rightarrow> template
      | d # after \<Rightarrow>
          takeWhile (\<lambda>c. c \<noteq> CHR ''$'') template @
          (if after \<noteq> [] \<and> hd after = CHR ''$'' then CHR ''$'' # expand L (tl after) m g
           else
             (case extract_name L after of
                None \<Rightarrow> CHR ''$'' # expand L after m g
              | Some (name, num, rest) \<Rightarrow> submatch num m g @ expand L rest m g)))"
  by pat_completeness auto
termination
proof (relation "measure (\<lambda>(L, t, m, g). length t)", goal_cases)
  case 1
  show ?case by simp
next
  case (2 L template m g d after)
  have "length (d # after) \<le> length template"
    unfolding 2(1) [symmetric] by (rule length_dropWhile_le)
  then show ?case by (cases after) auto
next
  case (3 L template m g d after)
  have "length (d # after) \<le> length template"
    unfolding 3(1) [symmetric] by (rule length_dropWhile_le)
  then show ?case by auto
next
  case (4 L template m g d after x2 name y num rest)
  have "length (d # after) \<le> length template"
    unfolding 4(1) [symmetric] by (rule length_dropWhile_le)
  moreover have "length rest \<le> length after"
    using 4 extract_rest_le [of L after name num rest] by simp
  ultimately show ?case by auto
qed

declare expand.simps [simp del]

text \<open>
  A match of the pattern \<^verbatim>\<open>\$n([^\d]|$)\<close> at the start of the string: the dollar sign
  and the decimal digits of \<open>n\<close>, then one rune that is not an ASCII digit, or else the
  end of the text. The result is the match, its group and what follows the match.
\<close>

definition matchPlaceholder :: "nat \<Rightarrow> string \<Rightarrow> (string \<times> string \<times> string) option" where
  "matchPlaceholder n s =
     (let lit = CHR ''$'' # itoa n
      in if take (length lit) s \<noteq> lit then None
         else
           (let t = drop (length lit) s
            in if t = [] then Some (lit, [], [])
               else
                 (let (r, w) = DecodeRuneInString t
                  in if 48 \<le> r \<and> r \<le> 57 then None
                     else Some (lit @ take w t, take w t, drop w t))))"

lemma matchPlaceholder_shorter:
  "matchPlaceholder n s = Some (m, g, rest) \<Longrightarrow> length rest < length s"
  by (auto simp: matchPlaceholder_def Let_def split: if_splits prod.splits)

text \<open>
  \<^verbatim>\<open>regexp.MustCompile(placeholder).ReplaceAllString(src, repl)\<close> for the pattern
  \<^verbatim>\<open>\$n([^\d]|$)\<close>: the matches are looked for from left to right, each one after the
  end of the one before, and each is replaced by the expanded template.
\<close>

function ReplaceAllString :: "golib \<Rightarrow> nat \<Rightarrow> string \<Rightarrow> string \<Rightarrow> string" where
  "ReplaceAllString L n src repl =
     (if src = [] then []
      else
        (case matchPlaceholder n src of
           Some (m, g, rest) \<Rightarrow> expand L repl m g @ ReplaceAllString L n rest repl
         | None \<Rightarrow>
             (let (r, w) = DecodeRuneInString src
              in take w src @ ReplaceAllString L n (drop w src) repl)))"
  by pat_completeness auto
termination
  by (relation "measure (\<lambda>(L, n, src, repl). length src)")
     (auto dest: drop_rune_shorter matchPlaceholder_shorter)

declare ReplaceAllString.simps [simp del]

text \<open>
  The loop of the numeric branch, lines 238 to 241: \<open>index\<close> counts the values already
  visited and \<open>result\<close> is the variable of that name.
\<close>

fun numericLoop :: "golib \<Rightarrow> string \<Rightarrow> string list \<Rightarrow> nat \<Rightarrow> string \<Rightarrow> string" where
  "numericLoop L sql [] index result = result"
| "numericLoop L sql (v # vs) index result =
     numericLoop L sql vs (index + 1) (ReplaceAllString L (index + 1) sql (v @ ''$1''))"

text \<open>
  The loop of the other branch, lines 244 to 249, over the segments of the split.
\<close>

fun positionalLoop :: "string list \<Rightarrow> string list \<Rightarrow> nat \<Rightarrow> string \<Rightarrow> string" where
  "positionalLoop [] vs index result = result"
| "positionalLoop (seg # segs) vs index result =
     positionalLoop segs vs (index + 1)
       (if index < length vs then (result @ seg) @ vs ! index else result @ seg)"

definition createSQL :: "golib \<Rightarrow> string \<Rightarrow> string list \<Rightarrow> string" where
  "createSQL L sql vs =
     (if numericPlaceHolderMatch sql then numericLoop L sql vs 0 []
      else positionalLoop (splitQ [] sql) vs 0 [])"

section \<open>Timestamps\<close>

text \<open>
  The seconds from January 1 of year 1, 00:00:00 UTC, to the instant of a time (the
  proleptic Gregorian calendar: \<open>daysBefore m\<close> is the number of days of a common year
  before its month \<open>m\<close>), and \<^verbatim>\<open>Time.IsZero\<close>, which holds of that instant alone.
\<close>

definition isLeap :: "int \<Rightarrow> bool" where
  "isLeap y \<longleftrightarrow> y mod 4 = 0 \<and> (y mod 100 \<noteq> 0 \<or> y mod 400 = 0)"

definition daysBefore :: "nat \<Rightarrow> int" where
  "daysBefore m = sum_list (take (m - 1) [31, 28, 31, 30, 31, 30, 31, 31, 30, 31, 30, 31])"

definition absSeconds :: "gtime \<Rightarrow> int" where
  "absSeconds t =
     (let y = t_year t - 1;
          days = 365 * y + y div 4 - y div 100 + y div 400
                 + daysBefore (t_month t)
                 + (if isLeap (t_year t) \<and> t_month t > 2 then 1 else 0)
                 + (int (t_day t) - 1)
      in days * 86400 + int (t_hour t) * 3600 + int (t_minute t) * 60 + int (t_second t)
         - t_offset t)"

definition IsZero :: "gtime \<Rightarrow> bool" where
  "IsZero t \<longleftrightarrow> absSeconds t = 0 \<and> t_nsec t = 0"

text \<open>The ranges of the fields that \<^verbatim>\<open>Date\<close> and \<^verbatim>\<open>Clock\<close> report.\<close>

definition civil :: "gtime \<Rightarrow> bool" where
  "civil t \<longleftrightarrow>
     1 \<le> t_month t \<and> t_month t \<le> 12 \<and> 1 \<le> t_day t \<and> t_day t \<le> 31 \<and>
     t_hour t < 24 \<and> t_minute t < 60 \<and> t_second t < 60"

text \<open>
  \<^verbatim>\<open>appendInt\<close> of package time: a minus sign for a negative number, then the decimal
  digits of its absolute value, padded with zeros on the left to the width.
\<close>

definition appendInt :: "int \<Rightarrow> nat \<Rightarrow> string" where
  "appendInt x width =
     (let ds = itoa (nat \<bar>x\<bar>)
      in (if x < 0 then ''-'' else []) @ replicate (width - length ds) (CHR ''0'') @ ds)"

text \<open>\<^verbatim>\<open>t.Format("2006-01-02 15:04:05")\<close>.\<close>

definition Format :: "gtime \<Rightarrow> string" where
  "Format t =
     appendInt (t_year t) 4 @ ''-'' @ appendInt (int (t_month t)) 2 @ ''-'' @
     appendInt (int (t_day t)) 2 @ '' '' @ appendInt (int (t_hour t)) 2 @ '':'' @
     appendInt (int (t_minute t)) 2 @ '':'' @ appendInt (int (t_second t)) 2"

text \<open>The number that a string of decimal digits denotes.\<close>

definition decimal :: "string \<Rightarrow> nat" where
  "decimal ds = foldl (\<lambda>n c. 10 * n + (of_char c - 48)) 0 ds"

section \<open>getFormattedValues\<close>

text \<open>
  \<^verbatim>\<open>reflect.Indirect(reflect.ValueOf(value))\<close>: a pointer is followed once; \<open>None\<close> is the
  invalid \<^verbatim>\<open>reflect.Value\<close>, which the nil interface and a nil pointer give.
\<close>

fun Indirect :: "gvalue \<Rightarrow> gvalue option" where
  "Indirect VNil = None"
| "Indirect (VPtr p) = p"
| "Indirect v = Some v"

text \<open>
  \<^verbatim>\<open>fmt.Sprintf("%v", v)\<close>: a string prints as itself, an integer in decimal, a boolean
  as \<^verbatim>\<open>true\<close> or \<^verbatim>\<open>false\<close>; the text of every other value is the parameter's.
\<close>

fun Sprint_v :: "golib \<Rightarrow> gvalue \<Rightarrow> string" where
  "Sprint_v L (VStr s) = s"
| "Sprint_v L (VInt i) = (if i < 0 then CHR ''-'' # itoa (nat (- i)) else itoa (nat i))"
| "Sprint_v L (VUint n) = itoa n"
| "Sprint_v L (VBool b) = (if b then ''true'' else ''false'')"
| "Sprint_v L v = fmt_v L v"

text \<open>\<^verbatim>\<open>fmt.Sprintf("'%v'", s)\<close> for a string \<open>s\<close>.\<close>

definition quoted :: "string \<Rightarrow> string" where
  "quoted s = [CHR 0x27] @ s @ [CHR 0x27]"

text \<open>
  The body of the loop of \<^verbatim>\<open>getFormattedValues\<close>, lines 193 to 224: the text appended
  for one bound value.
\<close>

fun formatIndirect :: "golib \<Rightarrow> gvalue \<Rightarrow> string" where
  "formatIndirect L (VTime t) =
     (if IsZero t then quoted ''0000-00-00 00:00:00'' else quoted (Format t))"
| "formatIndirect L (VBytes b) =
     (if isPrintable L b then quoted b else quoted ''<binary>'')"
| "formatIndirect L (VValuer v failed) =
     (if \<not> failed \<and> v \<noteq> VNil then quoted (Sprint_v L v) else ''NULL'')"
| "formatIndirect L (VInt i) = Sprint_v L (VInt i)"
| "formatIndirect L (VUint n) = Sprint_v L (VUint n)"
| "formatIndirect L (VFloat32 w) = Sprint_v L (VFloat32 w)"
| "formatIndirect L (VFloat64 w) = Sprint_v L (VFloat64 w)"
| "formatIndirect L (VBool b) = Sprint_v L (VBool b)"
| "formatIndirect L v = quoted (Sprint_v L v)"

definition formatValue :: "golib \<Rightarrow> gvalue \<Rightarrow> string" where
  "formatValue L v =
     (case Indirect v of
        Some value \<Rightarrow> formatIndirect L value
      | None \<Rightarrow> ''NULL'')"

text \<open>The loop itself: \<open>formattedValues\<close> grows by one text for each value.\<close>

fun formatLoop :: "golib \<Rightarrow> gvalue list \<Rightarrow> string list \<Rightarrow> string list" where
  "formatLoop L [] formattedValues = formattedValues"
| "formatLoop L (v # vs) formattedValues =
     formatLoop L vs (formattedValues @ [formatValue L v])"

text \<open>
  \<^verbatim>\<open>values[4].([]interface{})\<close> panics when the list has no index 4 and when the element
  there is not a \<^verbatim>\<open>[]interface{}\<close>.
\<close>

definition getFormattedValues :: "golib \<Rightarrow> gvalue list \<Rightarrow> panic + string list" where
  "getFormattedValues L values =
     (if length values \<le> 4 then Inl (IndexOutOfRange 4 (length values))
      else
        (case values ! 4 of
           VSlice vs \<Rightarrow> Inr (formatLoop L vs [])
         | _ \<Rightarrow> Inl InterfaceConversion))"

section \<open>createLog and Println\<close>

text \<open>
  The operands of the call of \<^verbatim>\<open>createSQL\<close> are evaluated from left to right:
  \<^verbatim>\<open>values[3].(string)\<close> first, then \<^verbatim>\<open>getFormattedValues(values)\<close>.
\<close>

definition createLog :: "golib \<Rightarrow> gvalue list \<Rightarrow> panic + string" where
  "createLog L values =
     (if length values > 1 then
        (if values ! 0 = VStr ''sql'' then
           (if length values \<le> 3 then Inl (IndexOutOfRange 3 (length values))
            else
              (case values ! 3 of
                 VStr sql \<Rightarrow>
                   (case getFormattedValues L values of
                      Inl p \<Rightarrow> Inl p
                    | Inr fs \<Rightarrow> Inr (''[gorm] : '' @ createSQL L sql fs))
               | _ \<Rightarrow> Inl InterfaceConversion))
         else Inr [])
      else Inr [])"

text \<open>
  \<^verbatim>\<open>Println\<close> hands the line to \<^verbatim>\<open>Debugf\<close> unless it is empty; \<^verbatim>\<open>Debugf\<close> with a template
  and no argument logs the template as it is. The result is the message logged at debug
  level, if any. \<^verbatim>\<open>Print\<close> passes its arguments on.
\<close>

definition Println :: "golib \<Rightarrow> gvalue list \<Rightarrow> panic + string option" where
  "Println L values =
     (case createLog L values of
        Inl p \<Rightarrow> Inl p
      | Inr sql \<Rightarrow> Inr (if sql \<noteq> [] then Some sql else None))"

definition Print :: "golib \<Rightarrow> gvalue list \<Rightarrow> panic + string option" where
  "Print L values = Println L values"

section \<open>Building the logger\<close>

text \<open>
  The fields of \<^verbatim>\<open>zap.Config\<close> and of \<^verbatim>\<open>lumberjack.Logger\<close> that the package reads. The
  type \<open>'e\<close> is \<^verbatim>\<open>zapcore.EncoderConfig\<close>, which the package only passes on.
\<close>

datatype level = DebugLevel | InfoLevel | WarnLevel | ErrorLevel | DPanicLevel | PanicLevel | FatalLevel

record 'e zap_Config =
  Level :: level
  Development :: bool
  DisableCaller :: bool
  DisableStacktrace :: bool
  Encoding :: string
  EncoderConfig :: 'e
  OutputPaths :: "string list"
  ErrorOutputPaths :: "string list"

record lumberjack_Logger =
  Filename :: string
  MaxSize :: int
  MaxBackups :: int
  MaxAge :: int

record 'e Config =
  ZapConfig :: "'e zap_Config"
  LogRotate :: lumberjack_Logger

datatype 'e Encoder = ConsoleEncoder 'e | JSONEncoder 'e

datatype WriteSyncer =
    Stdout
  | Stderr
  | AddSync lumberjack_Logger
  | CombineWriteSyncers "WriteSyncer list"

datatype zap_Option = ErrorOutput WriteSyncer | DevelopmentOption | AddCaller | AddStacktrace level

datatype error = Errorf string

text \<open>
  \<^verbatim>\<open>zap.New(zapcore.NewCore(enc, ws, level), opts...)\<close>: the logger is the record of what
  it was built from. The encoder is \<open>None\<close> when the nil encoder was passed.
\<close>

record 'e Logger =
  core_enc :: "'e Encoder option"
  core_ws :: WriteSyncer
  core_level :: level
  opts :: "zap_Option list"

text \<open>A Go result pair: the value, \<open>None\<close> for nil, and the error, \<open>None\<close> for nil.\<close>

definition newEncoder :: "'e zap_Config \<Rightarrow> 'e Encoder option \<times> error option" where
  "newEncoder cfg =
     (if Encoding cfg = ''console'' then (Some (ConsoleEncoder (EncoderConfig cfg)), None)
      else if Encoding cfg = ''json'' then (Some (JSONEncoder (EncoderConfig cfg)), None)
      else (None, Some (Errorf ''Failed to set encoder'')))"

definition newWriter :: "string \<Rightarrow> lumberjack_Logger \<Rightarrow> WriteSyncer" where
  "newWriter path rotateCfg =
     (if path = ''stdout'' then Stdout
      else if path = ''stderr'' then Stderr
      else AddSync \<lparr>Filename = Filename rotateCfg, MaxSize = MaxSize rotateCfg,
                    MaxBackups = MaxBackups rotateCfg, MaxAge = MaxAge rotateCfg\<rparr>)"

fun openLoop :: "string list \<Rightarrow> lumberjack_Logger \<Rightarrow> WriteSyncer list \<Rightarrow> WriteSyncer list" where
  "openLoop [] rotateCfg writers = writers"
| "openLoop (path # paths) rotateCfg writers =
     openLoop paths rotateCfg (writers @ [newWriter path rotateCfg])"

definition open_paths :: "string list \<Rightarrow> lumberjack_Logger \<Rightarrow> WriteSyncer" where
  "open_paths paths rotateCfg = CombineWriteSyncers (openLoop paths rotateCfg [])"

definition openWriters :: "'e Config \<Rightarrow> WriteSyncer \<times> WriteSyncer" where
  "openWriters cfg =
     (open_paths (OutputPaths (ZapConfig cfg)) (LogRotate cfg),
      open_paths (ErrorOutputPaths (ZapConfig cfg)) (LogRotate cfg))"

definition buildOptions :: "'e zap_Config \<Rightarrow> WriteSyncer \<Rightarrow> zap_Option list" where
  "buildOptions cfg errWriter =
     (let opts0 = [ErrorOutput errWriter];
          opts1 = (if Development cfg then opts0 @ [DevelopmentOption] else opts0);
          opts2 = (if \<not> DisableCaller cfg then opts1 @ [AddCaller] else opts1);
          stackLevel = (if Development cfg then WarnLevel else ErrorLevel)
      in if \<not> DisableStacktrace cfg then opts2 @ [AddStacktrace stackLevel] else opts2)"

text \<open>
  \<^verbatim>\<open>build\<close> takes a pointer: \<open>None\<close> is the nil pointer, whose field cannot be read. The
  error of \<^verbatim>\<open>newEncoder\<close> is assigned to the blank identifier, and the error returned is
  always nil.
\<close>

definition build :: "'e Config option \<Rightarrow> panic + ('e Logger \<times> error option)" where
  "build c =
     (case c of
        None \<Rightarrow> Inl NilPointerDereference
      | Some cfg \<Rightarrow>
          (let zapCfg = ZapConfig cfg;
               (enc, _) = newEncoder zapCfg;
               (writer, errWriter) = openWriters cfg;
               log = \<lparr>core_enc = enc, core_ws = writer, core_level = Level zapCfg,
                      opts = buildOptions zapCfg errWriter\<rparr>
           in Inr (log, None)))"

section \<open>A library for evaluation\<close>

text \<open>
  Where a statement is evaluated on a concrete input, the parameter is this library: its
  tables hold of no rune beyond those that the model fixes.
\<close>

definition ascii_lib :: golib where
  "ascii_lib = \<lparr>print_table = (\<lambda>r. False), letter_table = (\<lambda>r. False),
                 digit_table = (\<lambda>r. False), fmt_v = (\<lambda>v. ''?'')\<rparr>"

text \<open>The question marks of a string.\<close>

abbreviation questions :: "string \<Rightarrow> string" where
  "questions s \<equiv> filter (\<lambda>c. c = CHR ''?'') s"

section \<open>Properties of the loops\<close>

lemma Decode_ascii:
  "(of_char c :: nat) < 0x80 \<Longrightarrow> DecodeRuneInString (c # s) = (of_char c, 1)"
  by (simp add: DecodeRuneInString_def)

lemma splitQ_concat: "concat (splitQ seg s) = seg @ filter (\<lambda>c. c \<noteq> CHR ''?'') s"
  by (induction s arbitrary: seg) auto

lemma splitQ_length: "length (splitQ seg s) = Suc (count_list s (CHR ''?''))"
  by (induction s arbitrary: seg) auto

lemma splitQ_no_question:
  "CHR ''?'' \<notin> set seg \<Longrightarrow> \<forall>x \<in> set (splitQ seg s). CHR ''?'' \<notin> set x"
proof (induction s arbitrary: seg)
  case Nil
  then show ?case by simp
next
  case (Cons c s)
  show ?case
  proof (cases "c = CHR ''?''")
    case True
    then show ?thesis using Cons.IH [of "[]"] Cons.prems by simp
  next
    case False
    then show ?thesis using Cons.IH [of "seg @ [c]"] Cons.prems by simp
  qed
qed

lemma positionalLoop_no_values:
  "positionalLoop segs [] index result = result @ concat segs"
  by (induction segs arbitrary: index result) auto

lemma positionalLoop_exhausted:
  "length vs \<le> index \<Longrightarrow> positionalLoop segs vs index result = result @ concat segs"
  by (induction segs arbitrary: index result) auto

lemma positionalLoop_interleave:
  "length vs \<le> length segs \<Longrightarrow>
   positionalLoop segs (done @ vs) (length done) result =
     result @ concat (map2 (@) (take (length vs) segs) vs) @ concat (drop (length vs) segs)"
proof (induction vs arbitrary: segs "done" result)
  case Nil
  then show ?case by (simp add: positionalLoop_exhausted)
next
  case (Cons v vs)
  then obtain seg segs' where segs: "segs = seg # segs'" by (cases segs) auto
  have "positionalLoop segs' ((done @ [v]) @ vs) (length (done @ [v])) ((result @ seg) @ v) =
        ((result @ seg) @ v) @ concat (map2 (@) (take (length vs) segs') vs) @ concat (drop (length vs) segs')"
    using Cons.prems segs by (intro Cons.IH) simp
  then show ?case using segs by (simp add: nth_append)
qed

lemma numericLoop_last:
  "numericLoop L sql vs index result =
     (if vs = [] then result
      else ReplaceAllString L (index + length vs) sql (last vs @ ''$1''))"
  by (induction vs arbitrary: index result) auto

lemma formatLoop_map: "formatLoop L vs acc = acc @ map (formatValue L) vs"
  by (induction vs arbitrary: acc) auto

lemma isPrintable_runes: "isPrintable L s = list_all (unicode_IsPrint L) (runes s)"
proof (induction L s rule: isPrintable.induct)
  case (1 L s)
  show ?case
  proof (cases "s = []")
    case True
    then show ?thesis by (simp add: isPrintable.simps runes.simps)
  next
    case False
    obtain r w where d: "DecodeRuneInString s = (r, w)" by (cases "DecodeRuneInString s")
    show ?thesis
    proof (cases "unicode_IsPrint L r")
      case True
      then have "isPrintable L (drop w s) = list_all (unicode_IsPrint L) (runes (drop w s))"
        using "1.IH" [OF False d [symmetric]] by simp
      with False d True show ?thesis
        by (simp add: isPrintable.simps [of L s] runes.simps [of s])
    next
      case stop: False
      with False d show ?thesis
        by (simp add: isPrintable.simps [of L s] runes.simps [of s])
    qed
  qed
qed

section \<open>Properties of the placeholder replacement\<close>

lemma ReplaceAllString_Nil: "ReplaceAllString L n [] repl = []"
  by (simp add: ReplaceAllString.simps)

lemma matchPlaceholder_Nil: "matchPlaceholder n [] = None"
  by (simp add: matchPlaceholder_def)

lemma ReplaceAllString_match:
  "matchPlaceholder n src = Some (m, g, rest) \<Longrightarrow>
   ReplaceAllString L n src repl = expand L repl m g @ ReplaceAllString L n rest repl"
proof -
  assume a: "matchPlaceholder n src = Some (m, g, rest)"
  then have "src \<noteq> []" by (auto simp: matchPlaceholder_Nil)
  with a show ?thesis by (subst ReplaceAllString.simps) simp
qed

lemma ReplaceAllString_no_match:
  "matchPlaceholder n (c # s) = None \<Longrightarrow> (of_char c :: nat) < 0x80 \<Longrightarrow>
   ReplaceAllString L n (c # s) repl = c # ReplaceAllString L n s repl"
  by (subst ReplaceAllString.simps) (simp add: Decode_ascii)

lemma matchPlaceholder_other: "c \<noteq> CHR ''$'' \<Longrightarrow> matchPlaceholder n (c # s) = None"
  by (simp add: matchPlaceholder_def)

lemma ReplaceAllString_skip:
  "c \<noteq> CHR ''$'' \<Longrightarrow> (of_char c :: nat) < 0x80 \<Longrightarrow>
   ReplaceAllString L n (c # s) repl = c # ReplaceAllString L n s repl"
  by (simp add: ReplaceAllString_no_match matchPlaceholder_other)

lemma matchPlaceholder_split:
  assumes "matchPlaceholder n s = Some (m, g, rest)"
  shows "s = m @ rest \<and> m = (CHR ''$'' # itoa n) @ g"
proof -
  define lit where "lit = CHR ''$'' # itoa n"
  define t where "t = drop (length lit) s"
  obtain r w where d: "DecodeRuneInString t = (r, w)" by (cases "DecodeRuneInString t")
  have tk: "take (length lit) s = lit"
    using assms unfolding matchPlaceholder_def lit_def [symmetric] Let_def
    by (simp split: if_splits)
  have s: "s = lit @ t"
    unfolding t_def using tk append_take_drop_id [of "length lit" s] by simp
  show ?thesis
  proof (cases "t = []")
    case True
    then have "m = lit \<and> g = [] \<and> rest = []"
      using assms tk unfolding matchPlaceholder_def lit_def [symmetric] t_def [symmetric] Let_def
      by simp
    with s True show ?thesis by (simp add: lit_def)
  next
    case False
    then have "m = lit @ take w t \<and> g = take w t \<and> rest = drop w t"
      using assms tk d unfolding matchPlaceholder_def lit_def [symmetric] t_def [symmetric] Let_def
      by (auto split: if_splits)
    with s show ?thesis by (simp add: lit_def)
  qed
qed

lemma nameLen_Nil: "nameLen L [] = 0"
  by (simp add: nameLen.simps)

lemma extract_name_1: "extract_name L ''1'' = Some (''1'', 1, [])"
  by (simp add: extract_name_def nameLen.simps [of L "''1''"] nameLen_Nil Decode_ascii unicode_IsDigit_def)

lemma expand_Nil: "expand L [] m g = []"
  by (simp add: expand.simps)

lemma expand_plain:
  assumes "CHR ''$'' \<notin> set v"
  shows "expand L (v @ ''$1'') m g = v @ g"
proof -
  have d: "dropWhile (\<lambda>c. c \<noteq> CHR ''$'') (v @ ''$1'') = ''$1''"
    using assms by (subst dropWhile_append2) auto
  have t: "takeWhile (\<lambda>c. c \<noteq> CHR ''$'') (v @ ''$1'') = v"
    using assms by (subst takeWhile_append2) auto
  show ?thesis
    by (subst expand.simps) (simp add: d t extract_name_1 submatch_def expand_Nil)
qed

lemma quoted_no_dollar: "CHR ''$'' \<notin> set s \<Longrightarrow> CHR ''$'' \<notin> set (quoted s)"
  by (simp add: quoted_def)

lemma itoa_no_question: "CHR ''?'' \<notin> set (itoa n)"
proof (induction n rule: itoa.induct)
  case (1 n)
  have digit: "char_of (48 + k) \<noteq> CHR ''?''" if "k < 10" for k :: nat
  proof
    assume "char_of (48 + k) = CHR ''?''"
    then have "(of_char (char_of (48 + k)) :: nat) = of_char (CHR ''?'')" by simp
    with that show False by simp
  qed
  show ?case
  proof (cases "n < 10")
    case True
    then show ?thesis using digit [of n] by (simp add: itoa.simps [of n])
  next
    case False
    then show ?thesis
      using "1.IH" digit [of "n mod 10"] by (simp add: itoa.simps [of n])
  qed
qed

lemma ReplaceAllString_questions:
  assumes "CHR ''$'' \<notin> set v" and "CHR ''?'' \<notin> set v"
  shows "questions (ReplaceAllString L n src (v @ ''$1'')) = questions src"
proof (induction L n src "v @ ''$1''" rule: ReplaceAllString.induct)
  case (1 L n src)
  show ?case
  proof (cases "src = []")
    case True
    then show ?thesis by (simp add: ReplaceAllString_Nil)
  next
    case False
    show ?thesis
    proof (cases "matchPlaceholder n src")
      case None
      obtain r w where d: "DecodeRuneInString src = (r, w)"
        by (cases "DecodeRuneInString src")
      have "questions (ReplaceAllString L n (drop w src) (v @ ''$1'')) = questions (drop w src)"
        using "1.hyps"(1) [OF False None d [symmetric]] by simp
      moreover have "questions src = questions (take w src) @ questions (drop w src)"
        by (metis append_take_drop_id filter_append)
      ultimately have "questions (take w src @ ReplaceAllString L n (drop w src) (v @ ''$1''))
                 = questions src"
        by simp
      with False None d show ?thesis
        by (subst ReplaceAllString.simps) simp
    next
      case (Some p)
      obtain m g rest where p: "p = (m, g, rest)" by (cases p)
      have sp: "src = m @ rest" "m = (CHR ''$'' # itoa n) @ g"
        using matchPlaceholder_split [of n src m g rest] Some p by simp_all
      have ih: "questions (ReplaceAllString L n rest (v @ ''$1'')) = questions rest"
        using "1.hyps"(2) [OF False, of "(m, g, rest)" m "(g, rest)" g rest] Some p by simp
      have "questions (ReplaceAllString L n src (v @ ''$1''))
            = questions (v @ g) @ questions rest"
        using Some p ih assms(1)
        by (simp add: ReplaceAllString_match [of n src m g rest] expand_plain)
      also have "\<dots> = questions g @ questions rest"
        using assms(2) by (auto simp: filter_empty_conv)
      also have "\<dots> = questions src"
        using sp itoa_no_question [of n] by (auto simp: filter_empty_conv)
      finally show ?thesis .
    qed
  qed
qed

section \<open>Properties of the decoding\<close>

lemma Decode_1: "(of_char c0 :: nat) < 0x80 \<Longrightarrow> DecodeRuneInString (c0 # s) = (of_char c0, 1)"
  by (simp add: DecodeRuneInString_def)

lemma Decode_bad:
  "0x80 \<le> (of_char c0 :: nat) \<Longrightarrow> utf8_first (of_char c0) = None \<Longrightarrow>
   DecodeRuneInString (c0 # s) = (RuneError, 1)"
  by (simp add: DecodeRuneInString_def)

lemma Decode_short:
  "0x80 \<le> (of_char c0 :: nat) \<Longrightarrow> utf8_first (of_char c0) = Some (sz, lo, hi) \<Longrightarrow>
   length (c0 # s) < sz \<Longrightarrow> DecodeRuneInString (c0 # s) = (RuneError, 1)"
  by (simp add: DecodeRuneInString_def)

lemma Decode_fail1:
  "0x80 \<le> (of_char c0 :: nat) \<Longrightarrow> utf8_first (of_char c0) = Some (sz, lo, hi) \<Longrightarrow>
   (of_char c1 :: nat) < lo \<or> hi < of_char c1 \<Longrightarrow>
   DecodeRuneInString (c0 # c1 # s) = (RuneError, 1)"
  by (simp add: DecodeRuneInString_def)

lemma Decode_fail2:
  "0x80 \<le> (of_char c0 :: nat) \<Longrightarrow> utf8_first (of_char c0) = Some (sz, lo, hi) \<Longrightarrow> 3 \<le> sz \<Longrightarrow>
   (of_char c2 :: nat) < 0x80 \<or> 0xBF < (of_char c2 :: nat) \<Longrightarrow>
   DecodeRuneInString (c0 # c1 # c2 # s) = (RuneError, 1)"
  by (simp add: DecodeRuneInString_def)

lemma Decode_fail3:
  "0x80 \<le> (of_char c0 :: nat) \<Longrightarrow> utf8_first (of_char c0) = Some (4, lo, hi) \<Longrightarrow>
   (of_char c3 :: nat) < 0x80 \<or> 0xBF < (of_char c3 :: nat) \<Longrightarrow>
   DecodeRuneInString (c0 # c1 # c2 # c3 # s) = (RuneError, 1)"
  by (simp add: DecodeRuneInString_def)

lemma Decode_2:
  "0x80 \<le> (of_char c0 :: nat) \<Longrightarrow> utf8_first (of_char c0) = Some (2, lo, hi) \<Longrightarrow>
   lo \<le> (of_char c1 :: nat) \<Longrightarrow> (of_char c1 :: nat) \<le> hi \<Longrightarrow>
   DecodeRuneInString (c0 # c1 # s) = ((of_char c0 mod 32) * 64 + of_char c1 mod 64, 2)"
  by (simp add: DecodeRuneInString_def not_less)

lemma Decode_3:
  "0x80 \<le> (of_char c0 :: nat) \<Longrightarrow> utf8_first (of_char c0) = Some (3, lo, hi) \<Longrightarrow>
   lo \<le> (of_char c1 :: nat) \<Longrightarrow> (of_char c1 :: nat) \<le> hi \<Longrightarrow>
   0x80 \<le> (of_char c2 :: nat) \<Longrightarrow> (of_char c2 :: nat) \<le> 0xBF \<Longrightarrow>
   DecodeRuneInString (c0 # c1 # c2 # s)
     = ((of_char c0 mod 16) * 4096 + (of_char c1 mod 64) * 64 + of_char c2 mod 64, 3)"
  by (simp add: DecodeRuneInString_def not_less)

lemma Decode_4:
  "0x80 \<le> (of_char c0 :: nat) \<Longrightarrow> utf8_first (of_char c0) = Some (4, lo, hi) \<Longrightarrow>
   lo \<le> (of_char c1 :: nat) \<Longrightarrow> (of_char c1 :: nat) \<le> hi \<Longrightarrow>
   0x80 \<le> (of_char c2 :: nat) \<Longrightarrow> (of_char c2 :: nat) \<le> 0xBF \<Longrightarrow>
   0x80 \<le> (of_char c3 :: nat) \<Longrightarrow> (of_char c3 :: nat) \<le> 0xBF \<Longrightarrow>
   DecodeRuneInString (c0 # c1 # c2 # c3 # s)
     = ((of_char c0 mod 8) * 262144 + (of_char c1 mod 64) * 4096
          + (of_char c2 mod 64) * 64 + of_char c3 mod 64, 4)"
  by (simp add: DecodeRuneInString_def not_less)


lemma split_digit: "(q::nat) div n * (n * m) + q mod n * m = q * m"
proof -
  have "q * m = (q div n * n + q mod n) * m" by simp
  also have "\<dots> = q div n * (n * m) + q mod n * m"
    by (simp only: add_mult_distrib mult.assoc)
  finally show ?thesis by simp
qed

lemma digits3: "(r::nat) div 4096 * 4096 + r div 64 mod 64 * 64 + r mod 64 = r"
proof -
  have "r div 4096 = r div 64 div 64" by (simp add: div_mult2_eq [symmetric])
  then have "r div 4096 * 4096 + r div 64 mod 64 * 64 = r div 64 * 64"
    using split_digit [of "r div 64" 64 64] by simp
  then show ?thesis by simp
qed

lemma digits4:
  "(r::nat) div 262144 * 262144 + r div 4096 mod 64 * 4096 + r div 64 mod 64 * 64 + r mod 64 = r"
proof -
  have "r div 262144 = r div 4096 div 64" by (simp add: div_mult2_eq [symmetric])
  then have "r div 262144 * 262144 + r div 4096 mod 64 * 4096 = r div 4096 * 4096"
    using split_digit [of "r div 4096" 64 4096] by simp
  then show ?thesis using digits3 [of r] by simp
qed

lemma first2: "2 \<le> a \<Longrightarrow> a < 32 \<Longrightarrow> utf8_first (192 + a) = Some (2, 128, 191)"
  by (simp add: utf8_first_def)

lemma first3:
  "a < 16 \<Longrightarrow>
   utf8_first (224 + a) = Some (3, if a = 0 then 160 else 128, if a = 13 then 159 else 191)"
  by (simp add: utf8_first_def)

lemma first4:
  "a < 5 \<Longrightarrow>
   utf8_first (240 + a) = Some (4, if a = 0 then 144 else 128, if a = 4 then 143 else 191)"
  by (simp add: utf8_first_def)

lemma mod_lead:
  "(a::nat) < 32 \<Longrightarrow> (192 + a) mod 32 = a"
  "(b::nat) < 16 \<Longrightarrow> (224 + b) mod 16 = b"
  "(c::nat) < 8 \<Longrightarrow> (240 + c) mod 8 = c"
  "(d::nat) < 64 \<Longrightarrow> (128 + d) mod 64 = d"
  using mod_mult_self3 [of 6 32 a] mod_mult_self3 [of 14 16 b] mod_mult_self3 [of 30 8 c]
    mod_mult_self3 [of 2 64 d]
  by simp_all

lemma dec2:
  assumes "(of_char c0 :: nat) = 192 + a" "(of_char c1 :: nat) = 128 + b"
    and "2 \<le> a" "a < 32" "b < 64"
  shows "DecodeRuneInString (c0 # c1 # s) = (a * 64 + b, 2)"
  using Decode_2 [of c0 128 191 c1 s] assms by (simp add: first2 mod_lead)

lemma dec3:
  assumes "(of_char c0 :: nat) = 224 + a" "(of_char c1 :: nat) = 128 + b"
    "(of_char c2 :: nat) = 128 + c"
    and "a < 16" "b < 64" "c < 64" "a = 0 \<longrightarrow> 32 \<le> b" "a = 13 \<longrightarrow> b < 32"
  shows "DecodeRuneInString (c0 # c1 # c2 # s) = (a * 4096 + b * 64 + c, 3)"
  using Decode_3 [of c0 "if a = 0 then 160 else 128" "if a = 13 then 159 else 191" c1 c2 s] assms
  by (auto simp: first3 mod_lead split: if_splits)

lemma dec4:
  assumes "(of_char c0 :: nat) = 240 + a" "(of_char c1 :: nat) = 128 + b"
    "(of_char c2 :: nat) = 128 + c" "(of_char c3 :: nat) = 128 + d"
    and "a < 5" "b < 64" "c < 64" "d < 64" "a = 0 \<longrightarrow> 16 \<le> b" "a = 4 \<longrightarrow> b < 16"
  shows "DecodeRuneInString (c0 # c1 # c2 # c3 # s) = (a * 262144 + b * 4096 + c * 64 + d, 4)"
  using Decode_4 [of c0 "if a = 0 then 144 else 128" "if a = 4 then 143 else 191" c1 c2 c3 s] assms
  by (auto simp: first4 mod_lead split: if_splits)


lemma digit_mod: "(c::nat) < n \<Longrightarrow> (q * n + c) mod n = c"
  by simp

lemma digit_div: "(c::nat) < n \<Longrightarrow> (q * n + c) div n = q"
  by simp

lemma char_of_eq: "(of_char c :: nat) = n \<Longrightarrow> char_of n = c"
  by (metis char_of_char)

lemma enc2:
  assumes "(of_char c0 :: nat) = 192 + a" "(of_char c1 :: nat) = 128 + b"
    and "2 \<le> a" "a < 32" "b < 64"
  shows "EncodeRune (a * 64 + b) = [c0, c1] \<and> valid_rune (a * 64 + b)"
proof -
  let ?r = "a * 64 + b"
  have r: "\<not> ?r < 128" "?r < 2048" using assms by simp_all
  have d: "?r div 64 = a" "?r mod 64 = b" using assms by simp_all
  show ?thesis
    using r d assms(1,2) by (simp add: EncodeRune_def valid_rune_def char_of_eq)
qed

lemma enc3:
  assumes "(of_char c0 :: nat) = 224 + a" "(of_char c1 :: nat) = 128 + b"
    "(of_char c2 :: nat) = 128 + c"
    and "a < 16" "b < 64" "c < 64" "a = 0 \<longrightarrow> 32 \<le> b" "a = 13 \<longrightarrow> b < 32"
  shows "EncodeRune (a * 4096 + b * 64 + c) = [c0, c1, c2] \<and> valid_rune (a * 4096 + b * 64 + c)"
proof -
  let ?r = "a * 4096 + b * 64 + c"
  have lo: "\<not> ?r < 2048" using assms by (cases "a = 0") simp_all
  have hi: "?r < 65536" using assms by simp
  have v: "valid_rune ?r"
  proof (cases "a < 13")
    case True
    then have "a * 4096 \<le> 12 * 4096" by simp
    then show ?thesis using assms by (simp add: valid_rune_def)
  next
    case False
    show ?thesis
    proof (cases "a = 13")
      case True
      with assms show ?thesis by (simp add: valid_rune_def)
    next
      case False
      with \<open>\<not> a < 13\<close> have "14 * 4096 \<le> a * 4096" by simp
      then show ?thesis using hi by (simp add: valid_rune_def)
    qed
  qed
  have e: "?r = (a * 64 + b) * 64 + c" by simp
  have d1: "?r mod 64 = c" unfolding e using assms(6) by (rule digit_mod)
  have d2: "?r div 64 = a * 64 + b" unfolding e using assms(6) by (rule digit_div)
  have d3: "?r div 64 mod 64 = b" unfolding d2 using assms(5) by (rule digit_mod)
  have "?r div 4096 = ?r div 64 div 64" by (simp add: div_mult2_eq [symmetric])
  then have d4: "?r div 4096 = a" unfolding d2 using digit_div [OF assms(5), of a] by simp
  have "EncodeRune ?r = [char_of (224 + a), char_of (128 + b), char_of (128 + c)]"
    using lo hi v unfolding EncodeRune_def d1 d3 d4 by simp
  then show ?thesis using v assms(1,2,3) by (simp add: char_of_eq)
qed

lemma enc4:
  assumes "(of_char c0 :: nat) = 240 + a" "(of_char c1 :: nat) = 128 + b"
    "(of_char c2 :: nat) = 128 + c" "(of_char c3 :: nat) = 128 + d"
    and "a < 5" "b < 64" "c < 64" "d < 64" "a = 0 \<longrightarrow> 16 \<le> b" "a = 4 \<longrightarrow> b < 16"
  shows "EncodeRune (a * 262144 + b * 4096 + c * 64 + d) = [c0, c1, c2, c3] \<and>
         valid_rune (a * 262144 + b * 4096 + c * 64 + d)"
proof -
  let ?r = "a * 262144 + b * 4096 + c * 64 + d"
  have lo: "65536 \<le> ?r" using assms by (cases "a = 0") simp_all
  have hi: "?r \<le> 1114111"
  proof (cases "a = 4")
    case True
    with assms have "b * 4096 \<le> 15 * 4096" by simp
    with True assms show ?thesis by simp
  next
    case False
    with assms have "a * 262144 \<le> 3 * 262144" by simp
    moreover have "b * 4096 \<le> 63 * 4096" using assms by simp
    moreover have "c * 64 \<le> 63 * 64" using assms by simp
    ultimately show ?thesis using assms by simp
  qed
  have v: "valid_rune ?r" using lo hi by (simp add: valid_rune_def)
  have e: "?r = ((a * 64 + b) * 64 + c) * 64 + d" by simp
  have d1: "?r mod 64 = d" unfolding e using assms(8) by (rule digit_mod)
  have d2: "?r div 64 = (a * 64 + b) * 64 + c" unfolding e using assms(8) by (rule digit_div)
  have d3: "?r div 64 mod 64 = c" unfolding d2 using assms(7) by (rule digit_mod)
  have "?r div 4096 = ?r div 64 div 64" by (simp add: div_mult2_eq [symmetric])
  then have d4: "?r div 4096 = a * 64 + b"
    unfolding d2 using digit_div [OF assms(7), of "a * 64 + b"] by simp
  have d5: "?r div 4096 mod 64 = b" unfolding d4 using assms(6) by (rule digit_mod)
  have "?r div 262144 = ?r div 4096 div 64" by (simp add: div_mult2_eq [symmetric])
  then have d6: "?r div 262144 = a" unfolding d4 using digit_div [OF assms(6), of a] by simp
  have "EncodeRune ?r =
          [char_of (240 + a), char_of (128 + b), char_of (128 + c), char_of (128 + d)]"
    using lo v unfolding EncodeRune_def d1 d3 d5 d6 by simp
  then show ?thesis using v assms(1,2,3,4) by (simp add: char_of_eq)
qed


lemma of_char_byte: "n < 256 \<Longrightarrow> (of_char (char_of (n::nat)) :: nat) = n"
  by simp

lemma Decode_EncodeRune:
  assumes "valid_rune r"
  shows "DecodeRuneInString (EncodeRune r @ s) = (r, length (EncodeRune r))"
proof -
  consider (one) "r < 128" | (two) "128 \<le> r" "r < 2048" | (three) "2048 \<le> r" "r < 65536"
    | (four) "65536 \<le> r"
    by linarith
  then show ?thesis
  proof cases
    case one
    then show ?thesis by (simp add: EncodeRune_def Decode_1)
  next
    case two
    let ?a = "r div 64" and ?b = "r mod 64"
    have b: "2 \<le> ?a" "?a < 32" "?b < 64" using two by simp_all
    have c: "(of_char (char_of (192 + ?a)) :: nat) = 192 + ?a"
      "(of_char (char_of (128 + ?b)) :: nat) = 128 + ?b"
      using b by (simp_all add: of_char_byte del: of_char_of)
    have r: "?a * 64 + ?b = r" by simp
    show ?thesis
      using enc2 [OF c b] dec2 [OF c b, of s] unfolding r by simp
  next
    case three
    let ?a = "r div 4096" and ?b = "r div 64 mod 64" and ?c = "r mod 64"
    have r: "?a * 4096 + ?b * 64 + ?c = r" by (rule digits3)
    have a: "?a < 16" using three by simp
    have b: "?b < 64" "?c < 64" by simp_all
    have lo: "?a = 0 \<longrightarrow> 32 \<le> ?b"
    proof
      assume "?a = 0"
      then have "?b * 64 + ?c = r" using r by simp
      then show "32 \<le> ?b" using three(1) b(2) by linarith
    qed
    have hi: "?a = 13 \<longrightarrow> ?b < 32"
    proof
      assume "?a = 13"
      then have e: "53248 + ?b * 64 + ?c = r" using r by simp
      have "r < 55296" using assms three e by (simp add: valid_rune_def) linarith
      then show "?b < 32" using e by linarith
    qed
    have c: "(of_char (char_of (224 + ?a)) :: nat) = 224 + ?a"
      "(of_char (char_of (128 + ?b)) :: nat) = 128 + ?b"
      "(of_char (char_of (128 + ?c)) :: nat) = 128 + ?c"
      using a b by (simp_all add: of_char_byte del: of_char_of)
    show ?thesis
      using enc3 [OF c a b lo hi] dec3 [OF c a b lo hi, of s] unfolding r by simp
  next
    case four
    let ?a = "r div 262144" and ?b = "r div 4096 mod 64" and ?c = "r div 64 mod 64"
    let ?d = "r mod 64"
    have r: "?a * 262144 + ?b * 4096 + ?c * 64 + ?d = r" by (rule digits4)
    have top: "r \<le> 1114111" using assms four by (simp add: valid_rune_def)
    then have a: "?a < 5" by simp
    have b: "?b < 64" "?c < 64" "?d < 64" by simp_all
    have lo: "?a = 0 \<longrightarrow> 16 \<le> ?b"
    proof
      assume "?a = 0"
      then have "?b * 4096 + ?c * 64 + ?d = r" using r by simp
      then show "16 \<le> ?b" using four b by linarith
    qed
    have hi: "?a = 4 \<longrightarrow> ?b < 16"
    proof
      assume "?a = 4"
      then have "1048576 + ?b * 4096 + ?c * 64 + ?d = r" using r by simp
      then show "?b < 16" using top by linarith
    qed
    have c: "(of_char (char_of (240 + ?a)) :: nat) = 240 + ?a"
      "(of_char (char_of (128 + ?b)) :: nat) = 128 + ?b"
      "(of_char (char_of (128 + ?c)) :: nat) = 128 + ?c"
      "(of_char (char_of (128 + ?d)) :: nat) = 128 + ?d"
      using a b by (simp_all add: of_char_byte del: of_char_of)
    show ?thesis
      using enc4 [OF c a b lo hi] dec4 [OF c a b lo hi, of s] unfolding r by simp
  qed
qed


lemma lead_cases:
  fixes n :: nat
  assumes "n < 256"
  obtains (ascii) "n < 128"
    | (bad) "128 \<le> n" "utf8_first n = None"
    | (two) a where "n = 192 + a" "2 \<le> a" "a < 32"
    | (three) a where "n = 224 + a" "a < 16"
    | (four) a where "n = 240 + a" "a < 5"
proof -
  consider "n < 128" | "128 \<le> n" "n < 194" | "194 \<le> n" "n < 224" | "224 \<le> n" "n < 240"
    | "240 \<le> n" "n < 245" | "245 \<le> n"
    by linarith
  then show ?thesis
  proof cases
    case 1
    then show ?thesis by (rule ascii)
  next
    case 2
    then show ?thesis by (intro bad) (simp_all add: utf8_first_def)
  next
    case 3
    then show ?thesis by (intro two [of "n - 192"]) simp_all
  next
    case 4
    then show ?thesis by (intro three [of "n - 224"]) simp_all
  next
    case 5
    then show ?thesis by (intro four [of "n - 240"]) simp_all
  next
    case 6
    then show ?thesis by (intro bad) (simp_all add: utf8_first_def)
  qed
qed

lemma decodedI:
  "valid_rune r \<Longrightarrow> EncodeRune r = cs \<Longrightarrow> DecodeRuneInString (cs @ t) = (r, length cs) \<Longrightarrow>
   decoded (cs @ t)"
  unfolding decoded_def by auto

lemma Decode_cases: "s \<noteq> [] \<Longrightarrow> decoded s"
proof -
  assume "s \<noteq> []"
  then obtain c0 t where s: "s = c0 # t" by (cases s) auto
  let ?n = "of_char c0 :: nat"
  have "?n < 256" by simp
  then show ?thesis
  proof (cases rule: lead_cases)
    case ascii
    have "valid_rune ?n" using ascii by (simp add: valid_rune_def)
    moreover have "EncodeRune ?n = [c0]" using ascii by (simp add: EncodeRune_def)
    moreover have "DecodeRuneInString ([c0] @ t) = (?n, length [c0])"
      using ascii by (simp add: Decode_1)
    ultimately show ?thesis unfolding s using decodedI [of ?n "[c0]" t] by simp
  next
    case bad
    then show ?thesis unfolding s decoded_def by (simp add: Decode_bad)
  next
    case (two a)
    have hi: "128 \<le> ?n" using two by simp
    have f: "utf8_first ?n = Some (2, 128, 191)" using two by (simp add: first2)
    show ?thesis
    proof (cases t)
      case Nil
      then show ?thesis unfolding s decoded_def using Decode_short [OF hi f, of "[]"] by simp
    next
      case (Cons c1 t1)
      show ?thesis
      proof (cases "(of_char c1 :: nat) < 128 \<or> 191 < (of_char c1 :: nat)")
        case True
        then have "DecodeRuneInString (c0 # c1 # t1) = (RuneError, 1)"
          by (rule Decode_fail1 [OF hi f])
        then show ?thesis unfolding s Cons decoded_def by simp
      next
        case False
        then have inside: "128 \<le> (of_char c1 :: nat)" "(of_char c1 :: nat) \<le> 191" by simp_all
        define b where "b = (of_char c1 :: nat) - 128"
        have b: "(of_char c1 :: nat) = 128 + b" "b < 64" using inside by (simp_all add: b_def)
        have "decoded ([c0, c1] @ t1)"
          using enc2 [OF two(1) b(1) two(2,3) b(2)] dec2 [OF two(1) b(1) two(2,3) b(2), of t1]
          by (intro decodedI [of "a * 64 + b"]) simp_all
        then show ?thesis unfolding s Cons by simp
      qed
    qed
  next
    case (three a)
    have hi: "128 \<le> ?n" using three by simp
    let ?lo = "if a = 0 then 160 else 128 :: nat" and ?hi = "if a = 13 then 159 else 191 :: nat"
    have f: "utf8_first ?n = Some (3, ?lo, ?hi)" using three by (simp add: first3)
    show ?thesis
    proof (cases t)
      case Nil
      then show ?thesis unfolding s decoded_def using Decode_short [OF hi f, of "[]"] by simp
    next
      case (Cons c1 t1)
      show ?thesis
      proof (cases "(of_char c1 :: nat) < ?lo \<or> ?hi < (of_char c1 :: nat)")
        case True
        then have "DecodeRuneInString (c0 # c1 # t1) = (RuneError, 1)"
          by (rule Decode_fail1 [OF hi f])
        then show ?thesis unfolding s Cons decoded_def by simp
      next
        case False
        then have inside: "?lo \<le> (of_char c1 :: nat)" "(of_char c1 :: nat) \<le> ?hi" by simp_all
        define b where "b = (of_char c1 :: nat) - 128"
        have b: "(of_char c1 :: nat) = 128 + b" "b < 64" "a = 0 \<longrightarrow> 32 \<le> b" "a = 13 \<longrightarrow> b < 32"
          using inside by (auto simp: b_def split: if_splits)
        show ?thesis
        proof (cases t1)
          case Nil
          then show ?thesis
            unfolding s Cons decoded_def using Decode_short [OF hi f, of "[c1]"] by simp
        next
          case c2: (Cons c2 t2)
          show ?thesis
          proof (cases "(of_char c2 :: nat) < 128 \<or> 191 < (of_char c2 :: nat)")
            case True
            then have "DecodeRuneInString (c0 # c1 # c2 # t2) = (RuneError, 1)"
              using Decode_fail2 [OF hi f, of c2 c1 t2] by simp
            then show ?thesis unfolding s Cons c2 decoded_def by simp
          next
            case False
            then have in2: "128 \<le> (of_char c2 :: nat)" "(of_char c2 :: nat) \<le> 191" by simp_all
            define c where "c = (of_char c2 :: nat) - 128"
            have c: "(of_char c2 :: nat) = 128 + c" "c < 64" using in2 by (simp_all add: c_def)
            have "decoded ([c0, c1, c2] @ t2)"
              using enc3 [OF three(1) b(1) c(1) three(2) b(2) c(2) b(3,4)]
                dec3 [OF three(1) b(1) c(1) three(2) b(2) c(2) b(3,4), of t2]
              by (intro decodedI [of "a * 4096 + b * 64 + c"]) simp_all
            then show ?thesis unfolding s Cons c2 by simp
          qed
        qed
      qed
    qed
  next
    case (four a)
    have hi: "128 \<le> ?n" using four by simp
    let ?lo = "if a = 0 then 144 else 128 :: nat" and ?hi = "if a = 4 then 143 else 191 :: nat"
    have f: "utf8_first ?n = Some (4, ?lo, ?hi)" using four by (simp add: first4)
    show ?thesis
    proof (cases t)
      case Nil
      then show ?thesis unfolding s decoded_def using Decode_short [OF hi f, of "[]"] by simp
    next
      case (Cons c1 t1)
      show ?thesis
      proof (cases "(of_char c1 :: nat) < ?lo \<or> ?hi < (of_char c1 :: nat)")
        case True
        then have "DecodeRuneInString (c0 # c1 # t1) = (RuneError, 1)"
          by (rule Decode_fail1 [OF hi f])
        then show ?thesis unfolding s Cons decoded_def by simp
      next
        case False
        then have inside: "?lo \<le> (of_char c1 :: nat)" "(of_char c1 :: nat) \<le> ?hi" by simp_all
        define b where "b = (of_char c1 :: nat) - 128"
        have b: "(of_char c1 :: nat) = 128 + b" "b < 64" "a = 0 \<longrightarrow> 16 \<le> b" "a = 4 \<longrightarrow> b < 16"
          using inside by (auto simp: b_def split: if_splits)
        show ?thesis
        proof (cases t1)
          case Nil
          then show ?thesis
            unfolding s Cons decoded_def using Decode_short [OF hi f, of "[c1]"] by simp
        next
          case c2: (Cons c2 t2)
          show ?thesis
          proof (cases "(of_char c2 :: nat) < 128 \<or> 191 < (of_char c2 :: nat)")
            case True
            then have "DecodeRuneInString (c0 # c1 # c2 # t2) = (RuneError, 1)"
              using Decode_fail2 [OF hi f, of c2 c1 t2] by simp
            then show ?thesis unfolding s Cons c2 decoded_def by simp
          next
            case False
            then have in2: "128 \<le> (of_char c2 :: nat)" "(of_char c2 :: nat) \<le> 191" by simp_all
            define c where "c = (of_char c2 :: nat) - 128"
            have c: "(of_char c2 :: nat) = 128 + c" "c < 64" using in2 by (simp_all add: c_def)
            show ?thesis
            proof (cases t2)
              case Nil
              then show ?thesis
                unfolding s Cons c2 decoded_def using Decode_short [OF hi f, of "[c1, c2]"]
                by simp
            next
              case c3: (Cons c3 t3)
              show ?thesis
              proof (cases "(of_char c3 :: nat) < 128 \<or> 191 < (of_char c3 :: nat)")
                case True
                then have "DecodeRuneInString (c0 # c1 # c2 # c3 # t3) = (RuneError, 1)"
                  by (rule Decode_fail3 [OF hi f])
                then show ?thesis unfolding s Cons c2 c3 decoded_def by simp
              next
                case False
                then have in3: "128 \<le> (of_char c3 :: nat)" "(of_char c3 :: nat) \<le> 191" by simp_all
                define d where "d = (of_char c3 :: nat) - 128"
                have d: "(of_char c3 :: nat) = 128 + d" "d < 64"
                  using in3 by (simp_all add: d_def)
                have "decoded ([c0, c1, c2, c3] @ t3)"
                  using enc4 [OF four(1) b(1) c(1) d(1) four(2) b(2) c(2) d(2) b(3,4)]
                    dec4 [OF four(1) b(1) c(1) d(1) four(2) b(2) c(2) d(2) b(3,4), of t3]
                  by (intro decodedI [of "a * 262144 + b * 4096 + c * 64 + d"]) simp_all
                then show ?thesis unfolding s Cons c2 c3 by simp
              qed
            qed
          qed
        qed
      qed
    qed
  qed
qed


lemma EncodeRune_not_Nil: "EncodeRune r \<noteq> []"
  by (simp add: EncodeRune_def)

lemma runes_Nil: "runes [] = []"
  by (simp add: runes.simps)

lemma runes_EncodeRune:
  assumes "valid_rune r"
  shows "runes (EncodeRune r @ s) = r # runes s"
  using Decode_EncodeRune [OF assms, of s] EncodeRune_not_Nil [of r]
  by (subst runes.simps) simp

lemma runes_undecodable:
  assumes "s \<noteq> []"
    and "\<forall>r. valid_rune r \<longrightarrow> take (length (EncodeRune r)) s \<noteq> EncodeRune r"
  shows "runes s = RuneError # runes (tl s)"
proof -
  have "DecodeRuneInString s = (RuneError, 1)"
    using Decode_cases [OF assms(1)] assms(2) unfolding decoded_def by blast
  then show ?thesis using assms(1) by (subst runes.simps) (simp add: drop_Suc)
qed

lemma runes_bad_byte:
  "128 \<le> (of_char c :: nat) \<Longrightarrow> utf8_first (of_char c) = None \<Longrightarrow>
   runes (c # s) = RuneError # runes s"
  by (subst runes.simps) (simp add: Decode_bad)

lemma no_encoding_of_byte:
  assumes "128 \<le> (of_char c :: nat)" and "utf8_first (of_char c) = None" and "valid_rune r"
  shows "take (length (EncodeRune r)) (c # s) \<noteq> EncodeRune r"
proof
  assume e: "take (length (EncodeRune r)) (c # s) = EncodeRune r"
  have "c # s = EncodeRune r @ drop (length (EncodeRune r)) (c # s)"
    using append_take_drop_id [of "length (EncodeRune r)" "c # s"] e by simp
  then have "DecodeRuneInString (c # s) = (r, length (EncodeRune r))"
    using Decode_EncodeRune [OF assms(3), of "drop (length (EncodeRune r)) (c # s)"] by simp
  then have r: "r = RuneError" "length (EncodeRune r) = 1"
    using Decode_bad [OF assms(1,2), of s] by simp_all
  then show False by (simp add: RuneError_def EncodeRune_def valid_rune_def)
qed

lemma euro: "valid_rune 0x20AC \<and> EncodeRune 0x20AC = [CHR 0xE2, CHR 0x82, CHR 0xAC]"
  by (simp add: valid_rune_def EncodeRune_def char_of_eq)

section \<open>Properties of the decimal digits\<close>

lemma digit_char: "(k::nat) < 10 \<Longrightarrow> isDigitByte (char_of (48 + k))"
  by (simp add: isDigitByte_def)

lemma itoa_digits: "list_all isDigitByte (itoa n)"
proof (induction n rule: itoa.induct)
  case (1 n)
  show ?case
  proof (cases "n < 10")
    case True
    then show ?thesis by (simp add: itoa.simps [of n] digit_char)
  next
    case False
    then show ?thesis using "1.IH" by (simp add: itoa.simps [of n] digit_char)
  qed
qed

lemma itoa_length: "1 \<le> k \<Longrightarrow> n < 10 ^ k \<Longrightarrow> 1 \<le> length (itoa n) \<and> length (itoa n) \<le> k"
proof (induction n arbitrary: k rule: itoa.induct)
  case (1 n)
  show ?case
  proof (cases "n < 10")
    case True
    then show ?thesis using "1.prems" by (simp add: itoa.simps [of n])
  next
    case False
    then have "10 ^ 1 \<le> n" by simp
    with "1.prems" have "(10::nat) ^ 1 < 10 ^ k" by linarith
    then have k: "2 \<le> k" using power_less_imp_less_exp [of "10::nat" 1 k] by simp
    then obtain j where j: "k = Suc j" "1 \<le> j" by (cases k) auto
    from "1.prems" j have "n div 10 < 10 ^ j" by (simp add: less_mult_imp_div_less)
    then have "length (itoa (n div 10)) \<le> j" using "1.IH" [OF False j(2)] by simp
    with False j show ?thesis by (simp add: itoa.simps [of n])
  qed
qed

lemma appendInt_width:
  assumes "0 \<le> x" and "x < 10 ^ w" and "1 \<le> w"
  shows "length (appendInt x w) = w \<and> list_all isDigitByte (appendInt x w)"
proof -
  have "nat \<bar>x\<bar> < 10 ^ w" using assms(1,2) by (simp add: nat_less_iff)
  then have "length (itoa (nat \<bar>x\<bar>)) \<le> w" using itoa_length [OF assms(3)] by simp
  moreover have "isDigitByte (CHR ''0'')" by (simp add: isDigitByte_def)
  ultimately show ?thesis using assms(1) itoa_digits [of "nat \<bar>x\<bar>"]
    by (auto simp: appendInt_def Let_def list_all_iff)
qed

section \<open>Evaluation on concrete inputs\<close>

text \<open>
  Rewrite rules that let the simplifier run the decimal printing, the calendar and the
  placeholder replacement on the inputs of the examples below.
\<close>

lemma char_of_digits:
  "char_of (48::nat) = CHR ''0''" "char_of (49::nat) = CHR ''1''" "char_of (50::nat) = CHR ''2''"
  "char_of (51::nat) = CHR ''3''" "char_of (52::nat) = CHR ''4''" "char_of (53::nat) = CHR ''5''"
  "char_of (54::nat) = CHR ''6''" "char_of (55::nat) = CHR ''7''" "char_of (56::nat) = CHR ''8''"
  "char_of (57::nat) = CHR ''9''"
  by code_simp+

lemma itoa_small: "n < 10 \<Longrightarrow> itoa n = [char_of (48 + n)]"
  by (simp add: itoa.simps)

lemma itoa_step: "10 \<le> n \<Longrightarrow> itoa n = itoa (n div 10) @ [char_of (48 + n mod 10)]"
  by (simp add: itoa.simps [of n])

lemmas itoa_eval = itoa_small itoa_step char_of_digits

lemmas time_eval = IsZero_def absSeconds_def daysBefore_def isLeap_def civil_def

text \<open>The fields of a formatted time: their width, their digits and their value.\<close>

lemma decimal_snoc: "decimal (ds @ [c]) = 10 * decimal ds + (of_char c - 48)"
  by (simp add: decimal_def)

lemma decimal_itoa: "decimal (itoa n) = n"
proof (induction n rule: itoa.induct)
  case (1 n)
  show ?case
  proof (cases "n < 10")
    case True
    then show ?thesis by (simp add: itoa.simps [of n] decimal_def)
  next
    case False
    have "n mod 10 < 10" by simp
    then have d: "(of_char (char_of (48 + n mod 10)) :: nat) - 48 = n mod 10"
      by (simp del: of_char_of add: of_char_byte)
    have "decimal (itoa n) = 10 * decimal (itoa (n div 10)) + n mod 10"
      using False d by (simp add: itoa.simps [of n] decimal_snoc del: of_char_of)
    then show ?thesis using "1.IH" [OF False] by simp
  qed
qed

lemma decimal_zeros: "decimal (replicate k (CHR ''0'') @ ds) = decimal ds"
proof -
  have "foldl (\<lambda>n c. 10 * n + (of_char c - 48)) (0::nat) (replicate k (CHR ''0'')) = 0"
    by (induction k) simp_all
  then show ?thesis by (simp add: decimal_def)
qed

lemma decimal_appendInt: "0 \<le> x \<Longrightarrow> decimal (appendInt x w) = nat x"
  by (simp add: appendInt_def Let_def decimal_zeros decimal_itoa)

lemma digit_in_set: "(k::nat) < 10 \<Longrightarrow> char_of (48 + k) \<in> set ''0123456789''"
proof -
  assume k: "k < 10"
  have "map (\<lambda>k. char_of (48 + k :: nat)) [0..<10] = ''0123456789''"
    by (simp add: upt_rec char_of_digits)
  moreover have "char_of (48 + k) \<in> set (map (\<lambda>k. char_of (48 + k :: nat)) [0..<10])"
    using k by auto
  ultimately show ?thesis by simp
qed

lemma itoa_in_digits: "set (itoa n) \<subseteq> set ''0123456789''"
proof (induction n rule: itoa.induct)
  case (1 n)
  show ?case
  proof (cases "n < 10")
    case True
    then show ?thesis using digit_in_set [of n] by (simp add: itoa.simps [of n])
  next
    case False
    then show ?thesis
      using "1.IH" digit_in_set [of "n mod 10"] by (simp add: itoa.simps [of n])
  qed
qed

lemma appendInt_in_digits: "0 \<le> x \<Longrightarrow> set (appendInt x w) \<subseteq> set ''0123456789''"
  using itoa_in_digits [of "nat \<bar>x\<bar>"] by (auto simp: appendInt_def Let_def)

lemma appendInt_field:
  assumes "0 \<le> x" and "x < 10 ^ w" and "1 \<le> w"
  shows "length (appendInt x w) = w \<and> set (appendInt x w) \<subseteq> set ''0123456789'' \<and>
         decimal (appendInt x w) = nat x"
  using appendInt_width [OF assms] appendInt_in_digits [OF assms(1)] decimal_appendInt [OF assms(1)]
  by simp

lemma runes_ascii: "\<forall>c \<in> set s. (of_char c :: nat) < 0x80 \<Longrightarrow> runes s = map of_char s"
proof (induction s)
  case Nil
  then show ?case by (simp add: runes.simps)
next
  case (Cons c s)
  then show ?case by (subst runes.simps) (simp add: Decode_ascii)
qed

lemma match_2_at_1: "matchPlaceholder 2 ''$1 AND b = $2'' = None"
  by code_simp

lemma match_2_at_2: "matchPlaceholder 2 ''$2'' = Some (''$2'', [], [])"
  by code_simp

lemma match_1_end: "matchPlaceholder 1 ''$1'' = Some (''$1'', [], [])"
  by code_simp

lemma createSQL_select_7: "createSQL ascii_lib ''SELECT ?'' [''7''] = ''SELECT 7''"
  by (simp add: createSQL_def isDigitByte_def)

section \<open>Reconstruction of the statement\<close>

text \<open>
  C1. The spec has the numeric dialect substitute cumulatively, so that the template
  \<^verbatim>\<open>SELECT * FROM t WHERE a = $1 AND b = $2\<close> with the values \<^verbatim>\<open>1\<close> and \<^verbatim>\<open>'x'\<close> gives
  \<^verbatim>\<open>SELECT * FROM t WHERE a = 1 AND b = 'x'\<close>. The loop of \<^verbatim>\<open>createSQL\<close> replaces in
  \<^verbatim>\<open>sql\<close> every time and keeps the last replacement alone: on this input the first
  placeholder is still there.
\<close>

theorem createSQL_numeric_keeps_last_only:
  "createSQL L ''SELECT * FROM t WHERE a = $1 AND b = $2'' [''1'', quoted ''x'']
     = ''SELECT * FROM t WHERE a = $1 AND b = '' @ quoted ''x''"
proof -
  have "createSQL L ''SELECT * FROM t WHERE a = $1 AND b = $2'' [''1'', quoted ''x'']
        = ReplaceAllString L 2 ''SELECT * FROM t WHERE a = $1 AND b = $2''
            (quoted ''x'' @ ''$1'')"
    by (simp add: createSQL_def numericLoop_last isDigitByte_def numeral_2_eq_2)
  also have "\<dots> = ''SELECT * FROM t WHERE a = $1 AND b = '' @ quoted ''x''"
    by (simp add: ReplaceAllString_skip ReplaceAllString_Nil
          ReplaceAllString_no_match [OF match_2_at_1] ReplaceAllString_match [OF match_2_at_2]
          expand_plain quoted_no_dollar)
  finally show ?thesis .
qed

text \<open>
  C2, as amended. For a template without numeric placeholder, the reconstruction with no
  value is the template without its question marks; it is the template itself exactly
  when the template has no question mark.
\<close>

theorem createSQL_no_values:
  "\<not> numericPlaceHolderMatch sql \<Longrightarrow>
   createSQL L sql [] = filter (\<lambda>c. c \<noteq> CHR ''?'') sql \<and>
   (createSQL L sql [] = sql \<longleftrightarrow> CHR ''?'' \<notin> set sql)"
  by (auto simp: createSQL_def positionalLoop_no_values splitQ_concat filter_id_conv)

text \<open>C2, as amended, on the template \<^verbatim>\<open>a = ?\<close>.\<close>

theorem createSQL_no_values_witness:
  "\<not> numericPlaceHolderMatch ''a = ?'' \<and>
   createSQL ascii_lib ''a = ?'' [] = filter (\<lambda>c. c \<noteq> CHR ''?'') ''a = ?'' \<and>
   (createSQL ascii_lib ''a = ?'' [] = ''a = ?'' \<longleftrightarrow> CHR ''?'' \<notin> set ''a = ?'')"
  using createSQL_no_values [of "''a = ?''" ascii_lib] by (simp add: isDigitByte_def)

text \<open>
  C2, as stated, fails: with no value, the template \<^verbatim>\<open>a = ?\<close> loses its question mark.
\<close>

theorem createSQL_no_values_counterexample:
  "createSQL ascii_lib ''a = ?'' [] \<noteq> ''a = ?''"
  by (simp add: createSQL_def isDigitByte_def)

text \<open>
  C3, as amended. In the positional dialect, when the template has more question marks
  than there are values, each value follows its segment, and the segments left over are
  put together with nothing between them: no question mark of the template is in that
  part of the result.
\<close>

theorem createSQL_more_placeholders:
  assumes "\<not> numericPlaceHolderMatch sql" and "length vs < count_list sql (CHR ''?'')"
  shows "createSQL L sql vs =
           concat (map2 (@) (take (length vs) (splitQ [] sql)) vs)
           @ concat (drop (length vs) (splitQ [] sql))
         \<and> CHR ''?'' \<notin> set (concat (drop (length vs) (splitQ [] sql)))"
proof -
  have len: "length vs \<le> length (splitQ [] sql)"
    using assms(2) by (simp add: splitQ_length)
  have "positionalLoop (splitQ [] sql) ([] @ vs) (length ([] :: string list)) [] =
        [] @ concat (map2 (@) (take (length vs) (splitQ [] sql)) vs)
           @ concat (drop (length vs) (splitQ [] sql))"
    using len by (rule positionalLoop_interleave)
  moreover have "CHR ''?'' \<notin> set (concat (drop (length vs) (splitQ [] sql)))"
    using splitQ_no_question [of "[]" sql] by (auto dest: in_set_dropD)
  ultimately show ?thesis using assms(1) by (simp add: createSQL_def)
qed

text \<open>C3, as amended, on the template \<^verbatim>\<open>a = ? AND b = ?\<close> with the one value \<^verbatim>\<open>1\<close>.\<close>

theorem createSQL_more_placeholders_witness:
  "\<not> numericPlaceHolderMatch ''a = ? AND b = ?'' \<and>
   length [''1''] < count_list ''a = ? AND b = ?'' (CHR ''?'') \<and>
   createSQL ascii_lib ''a = ? AND b = ?'' [''1''] = ''a = 1 AND b = ''"
  using createSQL_more_placeholders [of "''a = ? AND b = ?''" "[''1'']" ascii_lib]
  by (simp add: isDigitByte_def)

text \<open>
  C3, as stated, fails: with one value for two question marks, the second question mark
  is not in the result.
\<close>

theorem createSQL_more_placeholders_counterexample:
  "createSQL ascii_lib ''a = ? AND b = ?'' [''1''] = ''a = 1 AND b = '' \<and>
   CHR ''?'' \<notin> set (createSQL ascii_lib ''a = ? AND b = ?'' [''1''])"
  by (simp add: createSQL_def isDigitByte_def)

text \<open>
  C9. A template with a numeric placeholder goes through the numeric replacement alone,
  whatever question marks it has: the result is the replacement of the last placeholder
  in the template (nothing when there is no value), and when the last value has neither
  dollar sign nor question mark, the question marks of the result are those of the
  template.
\<close>

theorem createSQL_numeric_exclusive:
  assumes "numericPlaceHolderMatch sql"
  shows "createSQL L sql vs =
           (if vs = [] then [] else ReplaceAllString L (length vs) sql (last vs @ ''$1''))
         \<and> (vs \<noteq> [] \<and> CHR ''$'' \<notin> set (last vs) \<and> CHR ''?'' \<notin> set (last vs) \<longrightarrow>
              questions (createSQL L sql vs) = questions sql)"
  using assms by (simp add: createSQL_def numericLoop_last ReplaceAllString_questions)

text \<open>
  C9 on the template \<^verbatim>\<open>SELECT ? WHERE a = $1\<close> with the value \<^verbatim>\<open>7\<close>: the question mark
  stays and the placeholder is replaced.
\<close>

theorem createSQL_numeric_exclusive_witness:
  "numericPlaceHolderMatch ''SELECT ? WHERE a = $1'' \<and>
   createSQL ascii_lib ''SELECT ? WHERE a = $1'' [''7''] = ''SELECT ? WHERE a = 7'' \<and>
   questions (createSQL ascii_lib ''SELECT ? WHERE a = $1'' [''7'']) = ''?''"
proof -
  have e: "expand ascii_lib ''7$1'' m g = ''7'' @ g" for m g
    using expand_plain [of "''7''" ascii_lib m g] by simp
  have r: "ReplaceAllString ascii_lib 1 ''SELECT ? WHERE a = $1'' ''7$1'' = ''SELECT ? WHERE a = 7''"
    by (simp add: ReplaceAllString_skip ReplaceAllString_Nil
          ReplaceAllString_match [OF match_1_end] e del: One_nat_def)
  show ?thesis
    using createSQL_numeric_exclusive [of "''SELECT ? WHERE a = $1''" ascii_lib "[''7'']"] r
    by (simp add: isDigitByte_def)
qed

section \<open>Formatting of the values\<close>

text \<open>
  C7, as amended. A byte sequence is formatted between single quotes when every rune that
  the decoding of it yields is printable, and as \<^verbatim>\<open>'<binary>'\<close> when some rune is not. The
  runes are those of UTF-8: where the bytes start with the encoding of a valid rune, that
  rune is read and the encoding passed over, and where they start with no such encoding,
  one byte is read as U+FFFD. U+FFFD is printable, so a byte that is not UTF-8 does not
  make the value binary, and it is written as it is. Of the ASCII runes, those from the
  space to the tilde are printable.
\<close>

theorem formatValue_bytes:
  "formatValue L (VBytes b) =
     (if list_all (unicode_IsPrint L) (runes b) then CHR 0x27 # b @ [CHR 0x27]
      else CHR 0x27 # ''<binary>'' @ [CHR 0x27])
   \<and> runes [] = []
   \<and> (valid_rune r \<longrightarrow> runes (EncodeRune r @ s) = r # runes s)
   \<and> (s \<noteq> [] \<and> (\<forall>r. valid_rune r \<longrightarrow> take (length (EncodeRune r)) s \<noteq> EncodeRune r) \<longrightarrow>
        runes s = 0xFFFD # runes (tl s))
   \<and> unicode_IsPrint L 0xFFFD
   \<and> (r < 0x80 \<longrightarrow> unicode_IsPrint L r = (0x20 \<le> r \<and> r \<le> 0x7E))"
proof (intro conjI impI)
  show "formatValue L (VBytes b) =
     (if list_all (unicode_IsPrint L) (runes b) then CHR 0x27 # b @ [CHR 0x27]
      else CHR 0x27 # ''<binary>'' @ [CHR 0x27])"
    by (simp add: formatValue_def isPrintable_runes quoted_def)
  show "runes [] = []" by (rule runes_Nil)
  show "runes (EncodeRune r @ s) = r # runes s" if "valid_rune r"
    using that by (rule runes_EncodeRune)
  show "runes s = 0xFFFD # runes (tl s)"
    if "s \<noteq> [] \<and> (\<forall>r. valid_rune r \<longrightarrow> take (length (EncodeRune r)) s \<noteq> EncodeRune r)"
    using that runes_undecodable [of s] by (simp add: RuneError_def)
  show "unicode_IsPrint L 0xFFFD" by (simp add: unicode_IsPrint_def)
  show "unicode_IsPrint L r = (0x20 \<le> r \<and> r \<le> 0x7E)" if "r < 0x80"
    using that by (simp add: unicode_IsPrint_def)
qed

text \<open>
  C7, as amended, on the bytes \<^verbatim>\<open>abc\<close>, on \<^verbatim>\<open>a\<close> followed by the control byte 1, on \<^verbatim>\<open>a\<close>
  followed by the byte \<open>0xFF\<close>, and on the three bytes of the euro sign.
\<close>

theorem formatValue_bytes_witness:
  "formatValue ascii_lib (VBytes ''abc'') = CHR 0x27 # ''abc'' @ [CHR 0x27] \<and>
   formatValue ascii_lib (VBytes [CHR 0x61, CHR 0x01]) = CHR 0x27 # ''<binary>'' @ [CHR 0x27] \<and>
   formatValue ascii_lib (VBytes [CHR 0x61, CHR 0xFF]) = [CHR 0x27, CHR 0x61, CHR 0xFF, CHR 0x27] \<and>
   valid_rune 0x20AC \<and>
   runes [CHR 0xE2, CHR 0x82, CHR 0xAC, CHR 0x61] = [0x20AC, 0x61] \<and>
   runes [CHR 0xFF] = [0xFFFD] \<and>
   unicode_IsPrint ascii_lib 0x20 \<and> \<not> unicode_IsPrint ascii_lib 0x7F"
proof -
  have bad: "\<forall>r. valid_rune r \<longrightarrow> take (length (EncodeRune r)) [CHR 0xFF] \<noteq> EncodeRune r"
    using no_encoding_of_byte [of "CHR 0xFF" _ "[]"] by (simp add: utf8_first_def)
  have r1: "runes ''abc'' = [0x61, 0x62, 0x63]" by (simp add: runes_ascii)
  have r2: "runes [CHR 0x61, CHR 0x01] = [0x61, 0x01]" by (simp add: runes_ascii)
  have r3: "runes [CHR 0x61, CHR 0xFF] = [0x61, 0xFFFD]"
    using runes_bad_byte [of "CHR 0xFF" "[]"]
    by (subst runes.simps) (simp add: Decode_ascii utf8_first_def runes_Nil RuneError_def)
  have r4: "runes ''a'' = [0x61]" by (simp add: runes_ascii)
  show ?thesis
    using formatValue_bytes [of ascii_lib "''abc''" "0x20" "[]"]
      formatValue_bytes [of ascii_lib "[CHR 0x61, CHR 0x01]" "0x7F" "[]"]
      formatValue_bytes [of ascii_lib "[CHR 0x61, CHR 0xFF]" "0x20AC" "''a''"]
      formatValue_bytes [of ascii_lib "[]" "0" "[CHR 0xFF]"]
      bad euro r1 r2 r3 r4
    by (simp add: unicode_IsPrint_def)
qed

text \<open>
  C7, as stated, fails: the byte \<open>0x80\<close> is no printable character, and neither is the byte
  \<open>0xFF\<close> alone, yet each is written as it is between the quotes and not as
  \<^verbatim>\<open>'<binary>'\<close>.
\<close>

theorem formatValue_bytes_counterexample:
  "formatValue ascii_lib (VBytes [CHR 0x80]) = [CHR 0x27, CHR 0x80, CHR 0x27] \<and>
   formatValue ascii_lib (VBytes [CHR 0xFF]) = [CHR 0x27, CHR 0xFF, CHR 0x27] \<and>
   formatValue ascii_lib (VBytes [CHR 0x80]) \<noteq> CHR 0x27 # ''<binary>'' @ [CHR 0x27]"
proof -
  have "runes [CHR 0x80] = [0xFFFD]" "runes [CHR 0xFF] = [0xFFFD]"
    using runes_bad_byte [of "CHR 0x80" "[]"] runes_bad_byte [of "CHR 0xFF" "[]"]
    by (simp_all add: utf8_first_def runes_Nil RuneError_def)
  then show ?thesis
    by (simp add: formatValue_def isPrintable_runes quoted_def unicode_IsPrint_def)
qed

text \<open>
  C8, as amended. The zero time is formatted as \<^verbatim>\<open>'0000-00-00 00:00:00'\<close>. Any other
  time whose year is from 0 to 9999 is formatted as 21 characters: a single quote, the
  four digits of the year, a hyphen, the two digits of the month, a hyphen, the two
  digits of the day, a space, the two digits of the hour, a colon, the two digits of the
  minute, a colon, the two digits of the second, and a single quote.
\<close>

theorem formatValue_time:
  "(IsZero t \<longrightarrow> formatValue L (VTime t) = CHR 0x27 # ''0000-00-00 00:00:00'' @ [CHR 0x27]) \<and>
   (\<not> IsZero t \<and> civil t \<and> 0 \<le> t_year t \<and> t_year t \<le> 9999 \<longrightarrow>
      length (formatValue L (VTime t)) = 21 \<and>
      (\<exists>Y M D h m s.
         formatValue L (VTime t)
           = CHR 0x27 # (Y @ ''-'' @ M @ ''-'' @ D @ '' '' @ h @ '':'' @ m @ '':'' @ s)
               @ [CHR 0x27] \<and>
         length Y = 4 \<and> length M = 2 \<and> length D = 2 \<and>
         length h = 2 \<and> length m = 2 \<and> length s = 2 \<and>
         set (Y @ M @ D @ h @ m @ s) \<subseteq> set ''0123456789'' \<and>
         int (decimal Y) = t_year t \<and> decimal M = t_month t \<and> decimal D = t_day t \<and>
         decimal h = t_hour t \<and> decimal m = t_minute t \<and> decimal s = t_second t))"
proof (intro conjI impI)
  assume "IsZero t"
  then show "formatValue L (VTime t) = CHR 0x27 # ''0000-00-00 00:00:00'' @ [CHR 0x27]"
    by (simp add: formatValue_def quoted_def)
next
  assume a: "\<not> IsZero t \<and> civil t \<and> 0 \<le> t_year t \<and> t_year t \<le> 9999"
  let ?Y = "appendInt (t_year t) 4" and ?M = "appendInt (int (t_month t)) 2"
  let ?D = "appendInt (int (t_day t)) 2" and ?h = "appendInt (int (t_hour t)) 2"
  let ?m = "appendInt (int (t_minute t)) 2" and ?s = "appendInt (int (t_second t)) 2"
  have f: "formatValue L (VTime t)
           = CHR 0x27 # (?Y @ ''-'' @ ?M @ ''-'' @ ?D @ '' '' @ ?h @ '':'' @ ?m @ '':'' @ ?s)
               @ [CHR 0x27]"
    using a by (simp add: formatValue_def Format_def quoted_def)
  have Y: "length ?Y = 4 \<and> set ?Y \<subseteq> set ''0123456789'' \<and> decimal ?Y = nat (t_year t)"
    using a by (intro appendInt_field) simp_all
  have M: "length ?M = 2 \<and> set ?M \<subseteq> set ''0123456789'' \<and> decimal ?M = nat (int (t_month t))"
    using a by (intro appendInt_field) (simp_all add: civil_def)
  have D: "length ?D = 2 \<and> set ?D \<subseteq> set ''0123456789'' \<and> decimal ?D = nat (int (t_day t))"
    using a by (intro appendInt_field) (simp_all add: civil_def)
  have h: "length ?h = 2 \<and> set ?h \<subseteq> set ''0123456789'' \<and> decimal ?h = nat (int (t_hour t))"
    using a by (intro appendInt_field) (simp_all add: civil_def)
  have m: "length ?m = 2 \<and> set ?m \<subseteq> set ''0123456789'' \<and> decimal ?m = nat (int (t_minute t))"
    using a by (intro appendInt_field) (simp_all add: civil_def)
  have s: "length ?s = 2 \<and> set ?s \<subseteq> set ''0123456789'' \<and> decimal ?s = nat (int (t_second t))"
    using a by (intro appendInt_field) (simp_all add: civil_def)
  show "length (formatValue L (VTime t)) = 21"
    using Y M D h m s unfolding f by simp
  have digits: "set (?Y @ ?M @ ?D @ ?h @ ?m @ ?s) \<subseteq> set ''0123456789''"
    using Y M D h m s by (simp only: set_append Un_subset_iff simp_thms)
  have year: "int (decimal ?Y) = t_year t" using Y a by simp
  have body:
    "formatValue L (VTime t)
       = CHR 0x27 # (?Y @ ''-'' @ ?M @ ''-'' @ ?D @ '' '' @ ?h @ '':'' @ ?m @ '':'' @ ?s)
           @ [CHR 0x27] \<and>
     length ?Y = 4 \<and> length ?M = 2 \<and> length ?D = 2 \<and>
     length ?h = 2 \<and> length ?m = 2 \<and> length ?s = 2 \<and>
     set (?Y @ ?M @ ?D @ ?h @ ?m @ ?s) \<subseteq> set ''0123456789'' \<and>
     int (decimal ?Y) = t_year t \<and> decimal ?M = t_month t \<and> decimal ?D = t_day t \<and>
     decimal ?h = t_hour t \<and> decimal ?m = t_minute t \<and> decimal ?s = t_second t"
    using f digits year Y M D h m s by (simp only: nat_int simp_thms)
  show "\<exists>Y M D h m s.
         formatValue L (VTime t)
           = CHR 0x27 # (Y @ ''-'' @ M @ ''-'' @ D @ '' '' @ h @ '':'' @ m @ '':'' @ s)
               @ [CHR 0x27] \<and>
         length Y = 4 \<and> length M = 2 \<and> length D = 2 \<and>
         length h = 2 \<and> length m = 2 \<and> length s = 2 \<and>
         set (Y @ M @ D @ h @ m @ s) \<subseteq> set ''0123456789'' \<and>
         int (decimal Y) = t_year t \<and> decimal M = t_month t \<and> decimal D = t_day t \<and>
         decimal h = t_hour t \<and> decimal m = t_minute t \<and> decimal s = t_second t"
    by (intro exI) (rule body)
qed

text \<open>
  C8, as amended, on the zero time and on February 29 of 2024, 13:05:09.
\<close>

theorem formatValue_time_witness:
  "IsZero \<lparr>t_year = 1, t_month = 1, t_day = 1, t_hour = 0, t_minute = 0, t_second = 0,
           t_nsec = 0, t_offset = 0\<rparr> \<and>
   formatValue ascii_lib
     (VTime \<lparr>t_year = 1, t_month = 1, t_day = 1, t_hour = 0, t_minute = 0, t_second = 0,
             t_nsec = 0, t_offset = 0\<rparr>) = CHR 0x27 # ''0000-00-00 00:00:00'' @ [CHR 0x27] \<and>
   \<not> IsZero \<lparr>t_year = 2024, t_month = 2, t_day = 29, t_hour = 13, t_minute = 5,
             t_second = 9, t_nsec = 0, t_offset = 0\<rparr> \<and>
   civil \<lparr>t_year = 2024, t_month = 2, t_day = 29, t_hour = 13, t_minute = 5,
          t_second = 9, t_nsec = 0, t_offset = 0\<rparr> \<and>
   formatValue ascii_lib
     (VTime \<lparr>t_year = 2024, t_month = 2, t_day = 29, t_hour = 13, t_minute = 5,
             t_second = 9, t_nsec = 0, t_offset = 0\<rparr>)
     = CHR 0x27 # ''2024-02-29 13:05:09'' @ [CHR 0x27] \<and>
   length (formatValue ascii_lib
     (VTime \<lparr>t_year = 2024, t_month = 2, t_day = 29, t_hour = 13, t_minute = 5,
             t_second = 9, t_nsec = 0, t_offset = 0\<rparr>)) = 21"
proof -
  let ?z = "\<lparr>t_year = 1, t_month = 1, t_day = 1, t_hour = 0, t_minute = 0, t_second = 0,
            t_nsec = 0, t_offset = 0\<rparr>"
  let ?t = "\<lparr>t_year = 2024, t_month = 2, t_day = 29, t_hour = 13, t_minute = 5,
            t_second = 9, t_nsec = 0, t_offset = 0\<rparr>"
  have z: "IsZero ?z" by (simp add: time_eval)
  have t: "\<not> IsZero ?t \<and> civil ?t \<and> 0 \<le> t_year ?t \<and> t_year ?t \<le> 9999"
    by (simp add: time_eval)
  have f: "formatValue ascii_lib (VTime ?t) = CHR 0x27 # ''2024-02-29 13:05:09'' @ [CHR 0x27]"
    using t by (simp add: formatValue_def quoted_def Format_def appendInt_def itoa_eval)
  have z': "formatValue ascii_lib (VTime ?z) = CHR 0x27 # ''0000-00-00 00:00:00'' @ [CHR 0x27]"
    using z formatValue_time [of ?z ascii_lib] by blast
  have t': "length (formatValue ascii_lib (VTime ?t)) = 21"
    using t formatValue_time [of ?t ascii_lib] by blast
  show ?thesis
    using z t z' t' f by blast
qed

text \<open>
  C8, as stated, fails: January 1 of the year 10000 is not the zero time, and it is
  formatted as 20 characters between the quotes.
\<close>

theorem formatValue_time_counterexample:
  "\<not> IsZero \<lparr>t_year = 10000, t_month = 1, t_day = 1, t_hour = 0, t_minute = 0,
             t_second = 0, t_nsec = 0, t_offset = 0\<rparr> \<and>
   formatValue ascii_lib
     (VTime \<lparr>t_year = 10000, t_month = 1, t_day = 1, t_hour = 0, t_minute = 0,
             t_second = 0, t_nsec = 0, t_offset = 0\<rparr>)
     = CHR 0x27 # ''10000-01-01 00:00:00'' @ [CHR 0x27] \<and>
   length ''10000-01-01 00:00:00'' = 20"
  by (simp add: formatValue_def quoted_def time_eval Format_def appendInt_def itoa_eval)

text \<open>
  C10. When the list has an index 4 and a sequence of values is there,
  \<^verbatim>\<open>getFormattedValues\<close> returns one text for each value of the sequence, in order.
\<close>

theorem getFormattedValues_length:
  "4 < length values \<Longrightarrow> values ! 4 = VSlice vs \<Longrightarrow>
   \<exists>fs. getFormattedValues L values = Inr fs \<and> length fs = length vs \<and>
        fs = map (formatValue L) vs"
  by (simp add: getFormattedValues_def formatLoop_map)

text \<open>C10 on a trace event with the two bound values 7 and a nil pointer.\<close>

theorem getFormattedValues_length_witness:
  "4 < length [VStr ''sql'', VNil, VNil, VStr ''SELECT ?, ?'', VSlice [VInt 7, VPtr None]] \<and>
   [VStr ''sql'', VNil, VNil, VStr ''SELECT ?, ?'', VSlice [VInt 7, VPtr None]] ! 4
     = VSlice [VInt 7, VPtr None] \<and>
   (\<exists>fs. getFormattedValues ascii_lib
           [VStr ''sql'', VNil, VNil, VStr ''SELECT ?, ?'', VSlice [VInt 7, VPtr None]] = Inr fs \<and>
         length fs = length [VInt 7, VPtr None] \<and> fs = [''7'', ''NULL''])"
  using getFormattedValues_length
    [of "[VStr ''sql'', VNil, VNil, VStr ''SELECT ?, ?'', VSlice [VInt 7, VPtr None]]"
        "[VInt 7, VPtr None]" ascii_lib]
  by (simp add: formatValue_def itoa_eval)

section \<open>The log line\<close>

text \<open>
  C6, as amended. For a list of more than one element whose first element is \<^verbatim>\<open>"sql"\<close>, a log line
  is produced exactly when the list has at least 5 elements, a string at index 3 and a
  sequence of values at index 4. A list of 2, 3 or 4 elements makes \<^verbatim>\<open>createLog\<close> panic:
  on the index 3 when that is out of range, on the index 4 when the element at index 3
  is a string, and on the type assertion of the element at index 3 otherwise.
\<close>

theorem createLog_sql_requirements:
  assumes "1 < length values" and "values ! 0 = VStr ''sql''"
  shows "((\<exists>line. createLog L values = Inr line) \<longleftrightarrow>
            5 \<le> length values \<and> (\<exists>sql. values ! 3 = VStr sql) \<and> (\<exists>vs. values ! 4 = VSlice vs))
         \<and> (length values \<le> 3 \<longrightarrow>
              createLog L values = Inl (IndexOutOfRange 3 (length values)))
         \<and> (length values = 4 \<longrightarrow>
              createLog L values =
                (if \<exists>sql. values ! 3 = VStr sql then Inl (IndexOutOfRange 4 4)
                 else Inl InterfaceConversion))
         \<and> (length values \<le> 4 \<longrightarrow> (\<exists>p. createLog L values = Inl p))"
proof -
  have short: "length values \<le> 3 \<Longrightarrow> createLog L values = Inl (IndexOutOfRange 3 (length values))"
    using assms by (simp add: createLog_def)
  have four: "length values = 4 \<Longrightarrow> createLog L values =
                (if \<exists>sql. values ! 3 = VStr sql then Inl (IndexOutOfRange 4 4)
                 else Inl InterfaceConversion)"
    using assms by (auto simp: createLog_def getFormattedValues_def split: gvalue.splits)
  have long: "5 \<le> length values \<Longrightarrow>
      (\<exists>line. createLog L values = Inr line) \<longleftrightarrow>
        (\<exists>sql. values ! 3 = VStr sql) \<and> (\<exists>vs. values ! 4 = VSlice vs)"
    using assms by (auto simp: createLog_def getFormattedValues_def split: gvalue.splits)
  have cases: "length values \<le> 3 \<or> length values = 4 \<or> 5 \<le> length values" by linarith
  have iff: "(\<exists>line. createLog L values = Inr line) \<longleftrightarrow>
            5 \<le> length values \<and> (\<exists>sql. values ! 3 = VStr sql) \<and> (\<exists>vs. values ! 4 = VSlice vs)"
    using cases short four long by (elim disjE) (auto split: if_splits)
  have fail: "length values \<le> 4 \<Longrightarrow> \<exists>p. createLog L values = Inl p"
    using short four by (cases "length values = 4") (auto split: if_splits)
  show ?thesis using iff short four fail by blast
qed

text \<open>C6, as amended, on lists of 2, 4 and 5 elements.\<close>

theorem createLog_sql_requirements_witness:
  "1 < length [VStr ''sql'', VNil] \<and> [VStr ''sql'', VNil] ! 0 = VStr ''sql'' \<and>
   createLog ascii_lib [VStr ''sql'', VNil] = Inl (IndexOutOfRange 3 2) \<and>
   createLog ascii_lib [VStr ''sql'', VNil, VNil, VStr ''SELECT 1''] = Inl (IndexOutOfRange 4 4) \<and>
   createLog ascii_lib [VStr ''sql'', VNil, VNil, VInt 1] = Inl InterfaceConversion \<and>
   (\<exists>line. createLog ascii_lib [VStr ''sql'', VNil, VNil, VStr ''SELECT 1'', VSlice []] = Inr line)"
  using createLog_sql_requirements [of "[VStr ''sql'', VNil]" ascii_lib]
        createLog_sql_requirements [of "[VStr ''sql'', VNil, VNil, VStr ''SELECT 1'']" ascii_lib]
        createLog_sql_requirements [of "[VStr ''sql'', VNil, VNil, VInt 1]" ascii_lib]
        createLog_sql_requirements
          [of "[VStr ''sql'', VNil, VNil, VStr ''SELECT 1'', VSlice []]" ascii_lib]
  by simp

text \<open>
  C6, as stated, fails on a list of 4 elements with a number at index 3: the panic is
  that of the type assertion, which comes before the index 4 is read.
\<close>

theorem createLog_sql_requirements_counterexample:
  "createLog ascii_lib [VStr ''sql'', VNil, VNil, VInt 1] = Inl InterfaceConversion \<and>
   createLog ascii_lib [VStr ''sql'', VNil, VNil, VInt 1] \<noteq> Inl (IndexOutOfRange 4 4)"
  by (simp add: createLog_def)

text \<open>
  C4, as amended. For a loggable trace event with a string at index 3 and a sequence of
  values at index 4, the line handed to the logger is the prefix \<^verbatim>\<open>[gorm] : \<close> followed
  by what \<^verbatim>\<open>createSQL\<close> makes of the template and the formatted values.
\<close>

theorem Println_sql_line:
  assumes "values ! 0 = VStr ''sql''" and "4 < length values"
    and "values ! 3 = VStr sql" and "values ! 4 = VSlice vs"
  shows "createLog L values = Inr (''[gorm] : '' @ createSQL L sql (map (formatValue L) vs)) \<and>
         Println L values = Inr (Some (''[gorm] : '' @ createSQL L sql (map (formatValue L) vs)))"
  using assms by (simp add: Println_def createLog_def getFormattedValues_def formatLoop_map)

text \<open>C4, as amended, on the template \<^verbatim>\<open>SELECT ?\<close> with the bound value 7.\<close>

theorem Println_sql_line_witness:
  "[VStr ''sql'', VNil, VNil, VStr ''SELECT ?'', VSlice [VInt 7]] ! 0 = VStr ''sql'' \<and>
   4 < length [VStr ''sql'', VNil, VNil, VStr ''SELECT ?'', VSlice [VInt 7]] \<and>
   Println ascii_lib [VStr ''sql'', VNil, VNil, VStr ''SELECT ?'', VSlice [VInt 7]]
     = Inr (Some ''[gorm] : SELECT 7'')"
  using Println_sql_line
    [of "[VStr ''sql'', VNil, VNil, VStr ''SELECT ?'', VSlice [VInt 7]]" "''SELECT ?''"
        "[VInt 7]" ascii_lib]
  by (simp add: formatValue_def itoa_eval createSQL_select_7)

text \<open>
  C4, as stated, fails: the line of that event does not start with \<^verbatim>\<open>[sql] : \<close>.
\<close>

theorem Println_sql_line_counterexample:
  "Println ascii_lib [VStr ''sql'', VNil, VNil, VStr ''SELECT ?'', VSlice [VInt 7]]
     = Inr (Some ''[gorm] : SELECT 7'') \<and>
   Println ascii_lib [VStr ''sql'', VNil, VNil, VStr ''SELECT ?'', VSlice [VInt 7]]
     \<noteq> Inr (Some (''[sql] : '' @ createSQL ascii_lib ''SELECT ?'' [''7'']))"
  by (simp add: Println_def createLog_def getFormattedValues_def formatValue_def itoa_eval
        createSQL_select_7)

section \<open>The builder\<close>

text \<open>
  C5. The spec has the construction fail for an encoding that is neither \<^verbatim>\<open>console\<close> nor
  \<^verbatim>\<open>json\<close>. For the encoding \<^verbatim>\<open>xml\<close>, \<^verbatim>\<open>newEncoder\<close> returns its error, and \<^verbatim>\<open>build\<close>
  returns a logger without encoder and the nil error.
\<close>

theorem build_discards_encoder_error:
  "newEncoder
     \<lparr>Level = InfoLevel, Development = False, DisableCaller = False,
      DisableStacktrace = False, Encoding = ''xml'', EncoderConfig = ec,
      OutputPaths = [''stdout''], ErrorOutputPaths = [''stderr'']\<rparr>
     = (None, Some (Errorf ''Failed to set encoder'')) \<and>
   build (Some \<lparr>ZapConfig =
                  \<lparr>Level = InfoLevel, Development = False, DisableCaller = False,
                   DisableStacktrace = False, Encoding = ''xml'', EncoderConfig = ec,
                   OutputPaths = [''stdout''], ErrorOutputPaths = [''stderr'']\<rparr>,
                LogRotate = lr\<rparr>)
     = Inr (\<lparr>core_enc = None, core_ws = CombineWriteSyncers [Stdout],
             core_level = InfoLevel,
             opts = [ErrorOutput (CombineWriteSyncers [Stderr]), AddCaller,
                     AddStacktrace ErrorLevel]\<rparr>, None)"
  by (simp add: newEncoder_def build_def openWriters_def open_paths_def newWriter_def
        buildOptions_def)

end
